theory Spec2Isabelle
  imports Main "HOL-Library.Sublist"
begin

chapter \<open>The project curator bot\<close>

text \<open>
  A model of \<open>src/bot.py\<close>: a bot that visits the listing pages of several architecture
  sites, queues the article links it finds, picks one unsent link per source and run, and
  posts it to a chat.  The definitions follow the Python functions one by one and keep
  their names; the network, the parsers and the random shuffle are parameters.  The
  properties proved are those of the specification's claims C1 to C10.
\<close>

section \<open>Python strings\<close>

text \<open>
  A Python \<open>str\<close> is a sequence of Unicode code points, and \<open>len\<close> counts code
  points.  The bot uses characters beyond Latin-1 (the ellipsis U+2026, the bullet U+2022),
  so a string is modelled as a list of code points.  ASCII literals of the source are
  written \<open>str ''...''\<close>.
\<close>

type_synonym pychar = nat
type_synonym pystr = "nat list"

definition str :: "string \<Rightarrow> pystr" where
  "str s = map of_char s"

text \<open>
  \<open>str.isspace\<close> for one code point; \<open>str.strip()\<close> and the regular
  expression class \<open>\s\<close> (on \<open>str\<close> patterns) both use this set.
\<close>

definition isspace :: "pychar \<Rightarrow> bool" where
  "isspace c \<longleftrightarrow>
     (9 \<le> c \<and> c \<le> 13) \<or> (28 \<le> c \<and> c \<le> 32) \<or> c = 133 \<or> c = 160 \<or> c = 5760 \<or>
     (8192 \<le> c \<and> c \<le> 8202) \<or> c = 8232 \<or> c = 8233 \<or> c = 8239 \<or> c = 8287 \<or> c = 12288"

definition lstrip :: "pystr \<Rightarrow> pystr" where
  "lstrip s = dropWhile isspace s"

definition rstrip :: "pystr \<Rightarrow> pystr" where
  "rstrip s = rev (dropWhile isspace (rev s))"

definition strip :: "pystr \<Rightarrow> pystr" where
  "strip s = lstrip (rstrip s)"

text \<open>\<open>s.rstrip(chars)\<close>: drop trailing characters that occur in \<open>chars\<close>.\<close>

definition rstrip_chars :: "pystr \<Rightarrow> pystr \<Rightarrow> pystr" where
  "rstrip_chars chars s = rev (dropWhile (\<lambda>c. c \<in> set chars) (rev s))"

text \<open>\<open>s.split(c)[0]\<close> for a one-character separator: the part before its first occurrence.\<close>

definition split_first :: "pychar \<Rightarrow> pystr \<Rightarrow> pystr" where
  "split_first c s = takeWhile (\<lambda>x. x \<noteq> c) s"

text \<open>\<open>needle in s\<close> on strings is contiguous-substring search.\<close>

definition contains :: "pystr \<Rightarrow> pystr \<Rightarrow> bool" where
  "contains s needle = sublist needle s"

section \<open>URL normalization\<close>

definition normalize_url :: "pystr \<Rightarrow> pystr" where
  "normalize_url url0 =
     (let url1 = strip url0;
          url2 = split_first 35 url1
      in if 63 \<in> set url2 \<and> \<not> contains url2 (str ''archdaily.com/search/'')
         then split_first 63 url2
         else url2)"

section \<open>Sources and pagination\<close>

text \<open>
  The dataclass \<open>Source\<close>.  The field \<open>id\<close> is called \<open>sid\<close> and
  \<open>name\<close> is called \<open>sname\<close> here (\<open>id\<close> is the identity function of HOL).
\<close>

record source =
  sid :: pystr
  sname :: pystr
  list_url :: pystr
  paging :: pystr

text \<open>\<open>str(n)\<close> for a Python \<open>int\<close>: the decimal digits, with a minus sign if negative.\<close>

fun str_nat :: "nat \<Rightarrow> pystr" where
  "str_nat n = (if n < 10 then [48 + n] else str_nat (n div 10) @ [48 + n mod 10])"

declare str_nat.simps [simp del]

definition str_int :: "int \<Rightarrow> pystr" where
  "str_int i = (if i < 0 then 45 # str_nat (nat (- i)) else str_nat (nat i))"

text \<open>
  The pattern \<open>([?&])page=\d+\<close> of \<open>build_paged_url\<close>.  On a \<open>str\<close> pattern, \<open>\d\<close>
  is every Unicode decimal digit, a table of the Python runtime that varies with its Unicode
  version; the functions below take that table as the parameter \<open>dig\<close>.  Every version
  of the table contains the ASCII digits, and on an ASCII-only string the table
  \<open>ascii_digit\<close> gives what the runtime's table gives.
\<close>

definition ascii_digit :: "pychar \<Rightarrow> bool" where
  "ascii_digit c \<longleftrightarrow> 48 \<le> c \<and> c \<le> 57"

text \<open>The pattern matches at the very start of \<open>s\<close>.\<close>

definition page_match :: "(pychar \<Rightarrow> bool) \<Rightarrow> pystr \<Rightarrow> bool" where
  "page_match dig s =
     (case s of
        [] \<Rightarrow> False
      | c # r \<Rightarrow> (c = 63 \<or> c = 38) \<and> prefix (str ''page='') r \<and>
          (case drop 5 r of [] \<Rightarrow> False | d # _ \<Rightarrow> dig d))"

text \<open>\<open>re.search(pattern, s)\<close> finds a match: the pattern matches at some position.\<close>

fun re_search_page :: "(pychar \<Rightarrow> bool) \<Rightarrow> pystr \<Rightarrow> bool" where
  "re_search_page dig [] = False"
| "re_search_page dig (c # r) = (page_match dig (c # r) \<or> re_search_page dig r)"

text \<open>
  \<open>re.sub(pattern, rf"\1page={page}", s)\<close>, with \<open>rep\<close> the digits of the page: every
  match, leftmost first and not overlapping, is replaced by its first character (the group),
  \<open>page=\<close> and \<open>rep\<close>; \<open>\d+\<close> is greedy, so a match takes all the digits that follow.
\<close>

function re_sub_page :: "(pychar \<Rightarrow> bool) \<Rightarrow> pystr \<Rightarrow> pystr \<Rightarrow> pystr" where
  "re_sub_page dig rep [] = []"
| "re_sub_page dig rep (c # r) =
     (if page_match dig (c # r)
      then c # str ''page='' @ rep @ re_sub_page dig rep (dropWhile dig (drop 5 r))
      else c # re_sub_page dig rep r)"
  by pat_completeness auto
termination
  by (relation "measure (\<lambda>(dig, rep, s). length s)")
    (auto simp: less_Suc_eq_le intro: order_trans [OF length_dropWhile_le])

definition build_paged_url :: "(pychar \<Rightarrow> bool) \<Rightarrow> source \<Rightarrow> int \<Rightarrow> pystr" where
  "build_paged_url dig source page =
     (if page \<le> 1 then list_url source
      else if paging source = str ''wp_page'' then
        rstrip_chars (str ''/'') (list_url source) @ str ''/page/'' @ str_int page @ str ''/''
      else if paging source = str ''dezeen_page'' then
        rstrip_chars (str ''/'') (list_url source) @ str ''/page/'' @ str_int page @ str ''/''
      else if paging source = str ''archdaily_search_page'' then
        (if 63 \<in> set (list_url source) then
           (if re_search_page dig (list_url source)
            then re_sub_page dig (str_int page) (list_url source)
            else list_url source @ str ''&page='' @ str_int page)
         else list_url source @ str ''?page='' @ str_int page)
      else if paging source = str ''archdaily_category_page'' then
        rstrip_chars (str ''/'') (list_url source) @ str ''/page/'' @ str_int page
      else
        rstrip_chars (str ''/'') (list_url source) @ str ''/page/'' @ str_int page @ str ''/'')"

text \<open>Two sources used as concrete inputs.\<close>

definition ex_wp :: source where
  "ex_wp = \<lparr>sid = str ''lz'', sname = str ''Landezine'',
     list_url = str ''https://landezine.com/landscapes/'', paging = str ''wp_page''\<rparr>"

definition ex_search :: source where
  "ex_search = \<lparr>sid = str ''ad'', sname = str ''ArchDaily'',
     list_url = str ''https://www.archdaily.com/search/projects?page=2'',
     paging = str ''archdaily_search_page''\<rparr>"

section \<open>Project extraction\<close>

subsection \<open>Helpers on optional strings\<close>

text \<open>
  Python's truth test on an \<open>Optional[str]\<close>: \<open>None\<close> and the empty string are false.
  \<open>a or b\<close> is \<open>a\<close> when \<open>a\<close> is true, else \<open>b\<close>.
\<close>

definition truthy :: "pystr option \<Rightarrow> bool" where
  "truthy x = (case x of None \<Rightarrow> False | Some s \<Rightarrow> s \<noteq> [])"

definition py_or :: "pystr option \<Rightarrow> pystr option \<Rightarrow> pystr option" where
  "py_or a b = (if truthy a then a else b)"

text \<open>\<open>s.split()\<close>: the maximal runs of non-whitespace characters.\<close>

function split_ws :: "pystr \<Rightarrow> pystr list" where
  "split_ws s =
     (let w = dropWhile isspace s
      in if w = [] then []
         else takeWhile (\<lambda>c. \<not> isspace c) w # split_ws (dropWhile (\<lambda>c. \<not> isspace c) w))"
  by pat_completeness auto
termination
proof (relation "measure length")
  fix s w :: pystr
  assume w: "w = dropWhile isspace s" and ne: "w \<noteq> []"
  from ne have "\<not> isspace (hd w)" unfolding w by (rule hd_dropWhile)
  with ne have "dropWhile (\<lambda>c. \<not> isspace c) w = dropWhile (\<lambda>c. \<not> isspace c) (tl w)"
    by (cases w) auto
  then have "length (dropWhile (\<lambda>c. \<not> isspace c) w) \<le> length (tl w)"
    using length_dropWhile_le [of "\<lambda>c. \<not> isspace c" "tl w"] by (simp only:)
  also from ne have "\<dots> < length w" by (cases w) auto
  also have "\<dots> \<le> length s" unfolding w by (rule length_dropWhile_le)
  finally show "(dropWhile (\<lambda>c. \<not> isspace c) w, s) \<in> measure length" by simp
qed simp

declare split_ws.simps [simp del]

text \<open>\<open>sep.join(parts)\<close> for a one-character separator.\<close>

fun join :: "pychar \<Rightarrow> pystr list \<Rightarrow> pystr" where
  "join sep [] = []"
| "join sep [w] = w"
| "join sep (w # ws) = w @ sep # join sep ws"

subsection \<open>The parsed document\<close>

text \<open>
  \<open>BeautifulSoup(html, "html.parser")\<close> is a library outside the repository.  A parsed
  document is modelled by the answers to the four queries the bot makes:
  \<^item> \<open>meta_attr prop\<close>: the \<open>content\<close> attribute of the first \<open>meta\<close> tag with that
    \<open>property\<close> (\<open>None\<close>: no such tag, or the tag has no \<open>content\<close>);
  \<^item> \<open>h1_text\<close>: \<open>find("h1").get_text(strip=True)\<close>, \<open>None\<close> when there is no heading;
  \<^item> \<open>select_one_text sel\<close>: \<open>select_one(sel).get_text(" ", strip=True)\<close>, \<open>None\<close>
    when nothing matches;
  \<^item> \<open>full_text\<close>: \<open>get_text("\n", strip=True)\<close>.
\<close>

record soup =
  meta_attr :: "pystr \<Rightarrow> pystr option"
  h1_text :: "pystr option"
  select_one_text :: "pystr \<Rightarrow> pystr option"
  full_text :: pystr

definition meta_content :: "soup \<Rightarrow> pystr \<Rightarrow> pystr option" where
  "meta_content sp prop =
     (case meta_attr sp prop of
        None \<Rightarrow> None
      | Some c \<Rightarrow> if c = [] then None else Some (strip c))"

fun first_paragraph_in :: "soup \<Rightarrow> pystr list \<Rightarrow> pystr option" where
  "first_paragraph_in sp [] = None"
| "first_paragraph_in sp (sel # sels) =
     (case select_one_text sp sel of
        None \<Rightarrow> first_paragraph_in sp sels
      | Some t \<Rightarrow>
          (let txt = join 32 (split_ws t)
           in if 50 \<le> length txt then Some txt else first_paragraph_in sp sels))"

definition find_first_paragraph :: "soup \<Rightarrow> pystr option" where
  "find_first_paragraph sp =
     first_paragraph_in sp
       [str ''article p'', str ''.article__body p'', str ''.post-content p'',
        str ''.entry-content p'', str ''main p'']"

subsection \<open>Credits\<close>

text \<open>
  \<open>re.split(r"[\n\r|...]", val)[0]\<close>: the separators are line feed, carriage return, the
  vertical bar, the bullet U+2022 and the middle dot U+00B7.
\<close>

definition is_separator :: "pychar \<Rightarrow> bool" where
  "is_separator c \<longleftrightarrow> c = 10 \<or> c = 13 \<or> c = 124 \<or> c = 8226 \<or> c = 183"

definition credit_value :: "pystr \<Rightarrow> pystr" where
  "credit_value g = strip (takeWhile (\<lambda>c. \<not> is_separator c) (strip g))"


text \<open>
  \<open>find_credit(text, patterns)\<close>.  The regular-expression engine is outside the
  repository: \<open>re_search pat text\<close> stands for
  \<open>re.search(pat, text, flags=re.IGNORECASE)\<close>, giving \<open>group(1)\<close> of the first match and
  \<open>None\<close> when the pattern does not match.  (Every pattern the bot passes has a first
  group that takes part in every match.)
\<close>

fun find_credit :: "('p \<Rightarrow> pystr \<Rightarrow> pystr option) \<Rightarrow> pystr \<Rightarrow> 'p list \<Rightarrow> pystr option" where
  "find_credit re_search text [] = None"
| "find_credit re_search text (pat # patterns) =
     (case re_search pat text of
        None \<Rightarrow> find_credit re_search text patterns
      | Some g \<Rightarrow>
          (let val = credit_value g
           in if 2 \<le> length val \<and> length val \<le> 120 then Some val
              else find_credit re_search text patterns))"

definition valid_credit :: "pystr \<Rightarrow> bool" where
  "valid_credit v \<longleftrightarrow> 2 \<le> length v \<and> length v \<le> 120"


text \<open>
  A concrete page text and what \<open>re.search\<close> gives on it for the three author patterns of
  leibal.com, numbered in list order: 0 is \<open>Architects?:\s*([^\n]+)\<close>, which captures
  \<open>A\<close>; 1 is \<open>Design(?:er|ers)?:\s*([^\n]+)\<close>, which does not match; 2 is
  \<open>Studio:\s*([^\n]+)\<close>, which captures the rest of the second line.
\<close>

definition ex_text :: pystr where
  "ex_text = str ''Architects: A'' @ [10] @ str ''Studio: Foo Bar | 2021''"

definition ex_re_search :: "nat \<Rightarrow> pystr \<Rightarrow> pystr option" where
  "ex_re_search pat text =
     (if text \<noteq> ex_text then None
      else if pat = 0 then Some (str ''A'')
      else if pat = 2 then Some (str ''Foo Bar | 2021'')
      else None)"

subsection \<open>The description snippet\<close>

text \<open>\<open>re.sub(r"\s+", " ", s)\<close>: every maximal run of whitespace becomes one space.\<close>

function re_sub_spaces :: "pystr \<Rightarrow> pystr" where
  "re_sub_spaces [] = []"
| "re_sub_spaces (c # r) =
     (if isspace c then 32 # re_sub_spaces (dropWhile isspace r) else c # re_sub_spaces r)"
  by pat_completeness auto
termination
  by (relation "measure length")
    (auto simp: less_Suc_eq_le intro: order_trans [OF length_dropWhile_le])


text \<open>
  The end of \<open>parse_project\<close>: a description that is present and not empty is stripped,
  its whitespace runs are collapsed, and beyond 320 characters it is cut to
  \<open>desc[:317].rstrip()\<close> plus the ellipsis U+2026.
\<close>

definition trim_desc :: "pystr option \<Rightarrow> pystr option" where
  "trim_desc desc =
     (case desc of
        None \<Rightarrow> None
      | Some d \<Rightarrow>
          if d = [] then Some d
          else
            (let d1 = strip d;
                 d2 = re_sub_spaces d1
             in if length d2 > 320 then Some (rstrip (take 317 d2) @ [8230]) else Some d2))"


text \<open>A description of 327 characters whose 317th character is a space.\<close>

definition long_desc :: pystr where
  "long_desc = replicate 316 97 @ [32] @ replicate 10 98"


section \<open>The environment\<close>

text \<open>
  The bot talks to the network (\<open>requests.get\<close>, \<open>requests.post\<close>), parses documents with
  libraries and shuffles with \<open>random\<close>.  These are parameters of the model, collected in
  \<open>env\<close>.  Every network call is recorded as an event of a trace; the number of events so
  far is the time at which the environment is asked, so that the same URL may answer
  differently at different moments, and a shuffle may differ from call to call.
  \<^item> \<open>http_get t url\<close>: the text of the page, \<open>None\<close> when \<open>http_get\<close> raises (timeout,
    connection error, \<open>raise_for_status\<close>).
  \<^item> \<open>extract_links_from_list source html\<close>: the links of a listing page, in the order in
    which \<open>list(links)\<close> enumerates the set; \<open>None\<close> when the parser raises (an RSS feed
    that is not well-formed XML).
  \<^item> \<open>shuffle t links\<close>: the list after \<open>random.shuffle\<close>.
  \<^item> \<open>re_digit\<close>: the class \<open>\d\<close>.
  \<^item> \<open>parse_html html\<close>: the answers of the parsed document, \<open>None\<close> when parsing raises.
  \<^item> \<open>re_search\<close> and \<open>credit_patterns\<close>: the regular-expression engine and the pattern
    lists of \<open>parse_project\<close>, by site and by kind of credit.
  \<^item> \<open>tg_send_photo\<close>, \<open>tg_send_message\<close>: the value of \<open>r.ok\<close>, \<open>None\<close> when the request
    raises.
\<close>

datatype error = KeyError | RequestError | ParseError

datatype io = HttpGet pystr bool | SendPhoto pystr pystr | SendMessage pystr

type_synonym trace = "io list"

datatype site = Leibal | ArchDaily | Dezeen | Landezine | WorldLandscapeArchitect

datatype credit = Authors | Photographer

record 'p env =
  http_get :: "nat \<Rightarrow> pystr \<Rightarrow> pystr option"
  extract_links_from_list :: "source \<Rightarrow> pystr \<Rightarrow> pystr list option"
  shuffle :: "nat \<Rightarrow> pystr list \<Rightarrow> pystr list"
  re_digit :: "pychar \<Rightarrow> bool"
  parse_html :: "pystr \<Rightarrow> soup option"
  re_search :: "'p \<Rightarrow> pystr \<Rightarrow> pystr option"
  credit_patterns :: "site \<Rightarrow> credit \<Rightarrow> 'p list"
  tg_send_photo :: "nat \<Rightarrow> pystr \<Rightarrow> pystr \<Rightarrow> bool option"
  tg_send_message :: "nat \<Rightarrow> pystr \<Rightarrow> bool option"

text \<open>One call of \<open>http_get\<close>: the answer, and the trace with the call recorded.\<close>

definition fetch :: "'p env \<Rightarrow> pystr \<Rightarrow> trace \<Rightarrow> pystr option \<times> trace" where
  "fetch env url tr =
     (let r = http_get env (length tr) url in (r, tr @ [HttpGet url (r \<noteq> None)]))"

fun is_fetch :: "io \<Rightarrow> bool" where
  "is_fetch (HttpGet url ok) = True"
| "is_fetch e = False"

fun fetch_ok :: "io \<Rightarrow> bool" where
  "fetch_ok (HttpGet url ok) = ok"
| "fetch_ok e = False"

section \<open>The persisted state\<close>

text \<open>
  The value of \<open>state[source.id]\<close>: a dictionary with the keys \<open>sent_urls\<close>, \<open>queue_new\<close>
  and \<open>archive_page\<close>.  The code reads the cursor with \<open>s.get("archive_page", 1)\<close>, so the
  key may be absent: \<open>archive_page\<close> is optional and \<open>cursor\<close> is the value read.
\<close>

record source_state =
  sent_urls :: "pystr list"
  queue_new :: "pystr list"
  archive_page :: "int option"

type_synonym state = "pystr \<Rightarrow> source_state option"

definition cursor :: "source_state \<Rightarrow> int" where
  "cursor s = (case archive_page s of None \<Rightarrow> 1 | Some p \<Rightarrow> p)"

definition ensure_source_state :: "state \<Rightarrow> pystr \<Rightarrow> state" where
  "ensure_source_state st source_id =
     (if st source_id = None
      then st(source_id \<mapsto> \<lparr>sent_urls = [], queue_new = [], archive_page = Some 1\<rparr>)
      else st)"

text \<open>
  \<open>add_new_links_to_queue\<close>, \<open>pick_old_link\<close> and \<open>pick_link_for_run\<close> all begin with
  \<open>s = state[source.id]\<close> and read and change nothing but \<open>s\<close>.  They are modelled as
  functions on \<open>s\<close>; the callers look \<open>s\<close> up and store the changed \<open>s\<close> back, as the
  aliasing of the Python dictionary does.
\<close>

text \<open>The loop of \<open>add_new_links_to_queue\<close>; \<open>sent\<close> and \<open>queued\<close> are computed once, before it.\<close>

fun add_loop :: "pystr set \<Rightarrow> pystr set \<Rightarrow> pystr list \<Rightarrow> pystr list \<Rightarrow> pystr list" where
  "add_loop sent queued q [] = q"
| "add_loop sent queued q (u # links) =
     add_loop sent queued (if u \<notin> sent \<and> u \<notin> queued then q @ [u] else q) links"

definition add_new_links_to_queue :: "source_state \<Rightarrow> pystr list \<Rightarrow> source_state" where
  "add_new_links_to_queue s links =
     s\<lparr>queue_new := add_loop (set (sent_urls s)) (set (queue_new s)) (queue_new s) links\<rparr>"

text \<open>
  The loop of \<open>pick_old_link\<close>, with the number of iterations left.  \<open>List.find\<close> is the
  inner loop that returns the first shuffled link not in \<open>sent\<close>.  An exception of the link
  extractor is not caught by \<open>pick_old_link\<close> and leaves it as an exception.
\<close>

fun pick_old_loop ::
  "'p env \<Rightarrow> source \<Rightarrow> pystr set \<Rightarrow> nat \<Rightarrow> source_state \<Rightarrow> trace \<Rightarrow>
   (error + pystr option) \<times> source_state \<times> trace" where
  "pick_old_loop env source sent 0 s tr = (Inr None, s, tr)"
| "pick_old_loop env source sent (Suc n) s tr =
     (let page = cursor s;
          url = build_paged_url (re_digit env) source page
      in case fetch env url tr of
           (None, tr1) \<Rightarrow> (Inr None, s, tr1)
         | (Some html, tr1) \<Rightarrow>
             (case extract_links_from_list env source html of
                None \<Rightarrow> (Inl ParseError, s, tr1)
              | Some links \<Rightarrow>
                  (case find (\<lambda>u. u \<notin> sent) (shuffle env (length tr) links) of
                     Some u \<Rightarrow> (Inr (Some u), s\<lparr>archive_page := Some (page + 1)\<rparr>, tr1)
                   | None \<Rightarrow>
                       pick_old_loop env source sent n
                         (s\<lparr>archive_page := Some (page + 1)\<rparr>) tr1)))"

definition pick_old_link ::
  "'p env \<Rightarrow> source \<Rightarrow> source_state \<Rightarrow> trace \<Rightarrow>
   (error + pystr option) \<times> source_state \<times> trace" where
  "pick_old_link env source s tr = pick_old_loop env source (set (sent_urls s)) 5 s tr"

text \<open>
  \<open>pick_link_for_run\<close>.  The test \<open>if s["queue_new"]\<close> followed by \<open>pop(0)\<close> is the case
  distinction on the queue; \<open>if old\<close> is Python's truth test, false for \<open>None\<close> and for the
  empty string.
\<close>

definition pick_link_for_run ::
  "'p env \<Rightarrow> source \<Rightarrow> pystr \<Rightarrow> source_state \<Rightarrow> trace \<Rightarrow>
   (error + pystr option) \<times> source_state \<times> trace" where
  "pick_link_for_run env source mode s tr =
     (if mode = str ''morning'' then
        (case queue_new s of
           u # rest \<Rightarrow> (Inr (Some u), s\<lparr>queue_new := rest\<rparr>, tr)
         | [] \<Rightarrow> pick_old_link env source s tr)
      else
        (case pick_old_link env source s tr of
           (Inl e, s1, tr1) \<Rightarrow> (Inl e, s1, tr1)
         | (Inr old, s1, tr1) \<Rightarrow>
             if truthy old then (Inr old, s1, tr1)
             else
               (case queue_new s1 of
                  u # rest \<Rightarrow> (Inr (Some u), s1\<lparr>queue_new := rest\<rparr>, tr1)
                | [] \<Rightarrow> (Inr None, s1, tr1))))"

text \<open>\<open>utc_mode\<close>, as a function of the hour of the clock.\<close>

definition utc_mode :: "nat \<Rightarrow> pystr" where
  "utc_mode hour = (if hour < 12 then str ''morning'' else str ''evening'')"

section \<open>Publishing\<close>

record project =
  p_title :: pystr
  p_desc :: "pystr option"
  p_authors :: "pystr option"
  p_photographer :: "pystr option"
  p_preview :: "pystr option"
  p_url :: pystr

text \<open>The chain of \<open>if "..." in domain\<close> tests of \<open>parse_project\<close>, first match first.\<close>

definition site_of :: "pystr \<Rightarrow> site option" where
  "site_of domain =
     (if contains domain (str ''leibal.com'') then Some Leibal
      else if contains domain (str ''archdaily.com'') then Some ArchDaily
      else if contains domain (str ''dezeen.com'') then Some Dezeen
      else if contains domain (str ''landezine'') then Some Landezine
      else if contains domain (str ''worldlandscapearchitect'') then Some WorldLandscapeArchitect
      else None)"

definition parse_project :: "'p env \<Rightarrow> pystr \<Rightarrow> trace \<Rightarrow> (error + project) \<times> trace" where
  "parse_project env link tr =
     (case fetch env link tr of
        (None, tr1) \<Rightarrow> (Inl RequestError, tr1)
      | (Some html, tr1) \<Rightarrow>
          (case parse_html env html of
             None \<Rightarrow> (Inl ParseError, tr1)
           | Some sp \<Rightarrow>
               (let title = py_or (meta_content sp (str ''og:title''))
                              (case h1_text sp of Some h \<Rightarrow> Some h | None \<Rightarrow> Some link);
                    desc = py_or (meta_content sp (str ''og:description''))
                             (find_first_paragraph sp);
                    preview = meta_content sp (str ''og:image'');
                    text = full_text sp;
                    authors = (case site_of link of
                                 None \<Rightarrow> None
                               | Some st \<Rightarrow>
                                   find_credit (re_search env) text (credit_patterns env st Authors));
                    photographer = (case site_of link of
                                 None \<Rightarrow> None
                               | Some st \<Rightarrow>
                                   find_credit (re_search env) text
                                     (credit_patterns env st Photographer))
                in (Inr \<lparr>p_title = (case title of
                                       Some t \<Rightarrow> if t \<noteq> [] then strip t else link
                                     | None \<Rightarrow> link),
                          p_desc = trim_desc desc,
                          p_authors = authors,
                          p_photographer = photographer,
                          p_preview = preview,
                          p_url = link\<rparr>, tr1))))"

text \<open>\<open>s.replace(old, new)\<close> for a one-character \<open>old\<close>, and the escaping of the caption.\<close>

definition replace_char :: "pychar \<Rightarrow> pystr \<Rightarrow> pystr \<Rightarrow> pystr" where
  "replace_char old new s = concat (map (\<lambda>c. if c = old then new else [c]) s)"

definition esc :: "pystr \<Rightarrow> pystr" where
  "esc s = replace_char 62 (str ''&gt;'') (replace_char 60 (str ''&lt;'')
             (replace_char 38 (str ''&amp;'') s))"

text \<open>\<open>x or default\<close> for an optional string and a string.\<close>

definition or_else :: "pystr option \<Rightarrow> pystr \<Rightarrow> pystr" where
  "or_else x d = (case x of None \<Rightarrow> d | Some s \<Rightarrow> if s = [] then d else s)"

text \<open>
  The labels of the caption are Russian words in Cyrillic letters, given here by their
  code points; transliterated they read \<open>Avtory/byuro:\<close> (authors or office),
  \<open>Fotograf:\<close> (photographer) and \<open>Istochnik:\<close> (source).  The default for a missing
  credit is the dash U+2014.
\<close>

definition label_authors :: pystr where
  "label_authors = [1040, 1074, 1090, 1086, 1088, 1099, 47, 1073, 1102, 1088, 1086, 58]"

definition label_photographer :: pystr where
  "label_photographer = [1060, 1086, 1090, 1086, 1075, 1088, 1072, 1092, 58]"

definition label_source :: pystr where
  "label_source = [1048, 1089, 1090, 1086, 1095, 1085, 1080, 1082, 58]"

definition format_caption :: "pystr \<Rightarrow> project \<Rightarrow> pystr" where
  "format_caption source_name pr =
     (let title = or_else (Some (p_title pr)) (str ''Untitled'');
          desc = or_else (p_desc pr) [];
          authors = or_else (p_authors pr) [8212];
          photographer = or_else (p_photographer pr) [8212];
          link = or_else (Some (p_url pr)) [];
          lines = [str ''<b>'' @ esc title @ str ''</b>'',
                   str ''<i>'' @ esc source_name @ str ''</i>'',
                   []]
            @ (if desc \<noteq> [] then [esc desc, []] else [])
            @ [str ''<b>'' @ label_authors @ str ''</b> '' @ esc authors,
               str ''<b>'' @ label_photographer @ str ''</b> '' @ esc photographer,
               str ''<b>'' @ label_source @ str ''</b> '' @ esc link]
      in join 10 lines)"

text \<open>
  The two notices of \<open>main\<close>, also in Russian: the source's name in bold, a line feed,
  and a text saying that no project could be selected, or that parsing the project
  failed followed by the link.
\<close>

definition text_no_project :: pystr where
  "text_no_project =
     [1053, 1077, 32, 1091, 1076, 1072, 1083, 1086, 1089, 1100, 32, 1087, 1086, 1076, 1086,
      1073, 1088, 1072, 1090, 1100, 32, 1087, 1088, 1086, 1077, 1082, 1090, 32, 40, 1086,
      1096, 1080, 1073, 1082, 1072, 32, 1087, 1072, 1088, 1089, 1080, 1085, 1075, 1072, 32,
      1080, 1083, 1080, 32, 1085, 1077, 1090, 32, 1076, 1086, 1089, 1090, 1091, 1087, 1085,
      1099, 1093, 32, 1089, 1089, 1099, 1083, 1086, 1082, 41, 46]"

definition text_parse_error :: pystr where
  "text_parse_error =
     [1054, 1096, 1080, 1073, 1082, 1072, 32, 1087, 1088, 1080, 32, 1088, 1072, 1079, 1073,
      1086, 1088, 1077, 32, 1087, 1088, 1086, 1077, 1082, 1090, 1072, 58, 32]"

definition no_project_notice :: "source \<Rightarrow> pystr" where
  "no_project_notice src = str ''<b>'' @ sname src @ str ''</b>'' @ [10] @ text_no_project"

definition error_notice :: "source \<Rightarrow> pystr \<Rightarrow> pystr" where
  "error_notice src link =
     str ''<b>'' @ sname src @ str ''</b>'' @ [10] @ text_parse_error @ link"

text \<open>One call of \<open>tg_send_message\<close> and of \<open>tg_send_photo\<close>, recorded in the trace.\<close>

definition send_message :: "'p env \<Rightarrow> pystr \<Rightarrow> trace \<Rightarrow> (error + bool) \<times> trace" where
  "send_message env text tr =
     (case tg_send_message env (length tr) text of
        None \<Rightarrow> (Inl RequestError, tr @ [SendMessage text])
      | Some ok \<Rightarrow> (Inr ok, tr @ [SendMessage text]))"

definition send_photo :: "'p env \<Rightarrow> pystr \<Rightarrow> pystr \<Rightarrow> trace \<Rightarrow> (error + bool) \<times> trace" where
  "send_photo env photo caption tr =
     (case tg_send_photo env (length tr) photo caption of
        None \<Rightarrow> (Inl RequestError, tr @ [SendPhoto photo caption])
      | Some ok \<Rightarrow> (Inr ok, tr @ [SendPhoto photo caption]))"

text \<open>The body of the \<open>try\<close> block of \<open>main\<close> for the selected link.\<close>

definition try_publish :: "'p env \<Rightarrow> source \<Rightarrow> pystr \<Rightarrow> trace \<Rightarrow> (error + unit) \<times> trace" where
  "try_publish env src link tr =
     (case parse_project env link tr of
        (Inl e, tr1) \<Rightarrow> (Inl e, tr1)
      | (Inr pr, tr1) \<Rightarrow>
          (let caption = format_caption (sname src) pr
           in case (case p_preview pr of
                      None \<Rightarrow> (Inr False, tr1)
                    | Some pv \<Rightarrow>
                        if pv \<noteq> [] \<and> prefix (str ''http'') pv
                        then send_photo env pv caption tr1
                        else (Inr False, tr1)) of
                (Inl e, tr2) \<Rightarrow> (Inl e, tr2)
              | (Inr sent_ok, tr2) \<Rightarrow>
                  if sent_ok then (Inr (), tr2)
                  else (case send_message env caption tr2 of
                          (Inl e, tr3) \<Rightarrow> (Inl e, tr3)
                        | (Inr ok, tr3) \<Rightarrow> (Inr (), tr3))))"

text \<open>
  \<open>mark as sent\<close>: the link is appended and the list is cut to its last 5000 entries
  (\<open>st["sent_urls"][-5000:]\<close>).
\<close>

definition mark_sent :: "source_state \<Rightarrow> pystr \<Rightarrow> source_state" where
  "mark_sent st link =
     (let sent = sent_urls st @ [link]
      in st\<lparr>sent_urls := (if 5000 < length sent then drop (length sent - 5000) sent else sent)\<rparr>)"

text \<open>
  A notice sent outside the \<open>try\<close> block, followed by \<open>continue\<close>.  An exception that
  reaches \<open>main\<close> ends the run before \<open>save_state\<close>: the result is then the error, and
  no state.
\<close>

definition notify :: "'p env \<Rightarrow> pystr \<Rightarrow> state \<Rightarrow> trace \<Rightarrow> (error + state) \<times> trace" where
  "notify env text st tr =
     (case send_message env text tr of
        (Inl e, tr1) \<Rightarrow> (Inl e, tr1)
      | (Inr ok, tr1) \<Rightarrow> (Inr st, tr1))"

text \<open>
  One iteration of the second loop of \<open>main\<close>.  \<open>if not link\<close> is Python's truth test:
  \<open>None\<close> and the empty string both count as no link.
\<close>

definition publish_source ::
  "'p env \<Rightarrow> pystr \<Rightarrow> source \<Rightarrow> state \<Rightarrow> trace \<Rightarrow> (error + state) \<times> trace" where
  "publish_source env mode src st tr =
     (let st1 = ensure_source_state st (sid src)
      in case st1 (sid src) of
           None \<Rightarrow> (Inl KeyError, tr)
         | Some s \<Rightarrow>
             (case pick_link_for_run env src mode s tr of
                (Inl e, s1, tr1) \<Rightarrow> (Inl e, tr1)
              | (Inr None, s1, tr1) \<Rightarrow>
                  notify env (no_project_notice src) (st1(sid src \<mapsto> s1)) tr1
              | (Inr (Some link), s1, tr1) \<Rightarrow>
                  if link = [] then
                    notify env (no_project_notice src) (st1(sid src \<mapsto> s1)) tr1
                  else
                    (case try_publish env src link tr1 of
                       (Inl e, tr2) \<Rightarrow>
                         notify env (error_notice src link) (st1(sid src \<mapsto> s1)) tr2
                     | (Inr u, tr2) \<Rightarrow>
                         (Inr (st1(sid src \<mapsto> mark_sent s1 link)), tr2))))"

text \<open>One iteration of the first loop of \<open>main\<close>: every exception is caught.\<close>

definition refresh_source :: "'p env \<Rightarrow> source \<Rightarrow> state \<Rightarrow> trace \<Rightarrow> state \<times> trace" where
  "refresh_source env src st tr =
     (let st1 = ensure_source_state st (sid src)
      in case fetch env (list_url src) tr of
           (None, tr1) \<Rightarrow> (st1, tr1)
         | (Some html, tr1) \<Rightarrow>
             (case extract_links_from_list env src html of
                None \<Rightarrow> (st1, tr1)
              | Some links \<Rightarrow>
                  (case st1 (sid src) of
                     None \<Rightarrow> (st1, tr1)
                   | Some s \<Rightarrow> (st1(sid src \<mapsto> add_new_links_to_queue s links), tr1))))"

fun refresh_all :: "'p env \<Rightarrow> source list \<Rightarrow> state \<Rightarrow> trace \<Rightarrow> state \<times> trace" where
  "refresh_all env [] st tr = (st, tr)"
| "refresh_all env (src # sources) st tr =
     (case refresh_source env src st tr of (st1, tr1) \<Rightarrow> refresh_all env sources st1 tr1)"

fun publish_all ::
  "'p env \<Rightarrow> pystr \<Rightarrow> source list \<Rightarrow> state \<Rightarrow> trace \<Rightarrow> (error + state) \<times> trace" where
  "publish_all env mode [] st tr = (Inr st, tr)"
| "publish_all env mode (src # sources) st tr =
     (case publish_source env mode src st tr of
        (Inl e, tr1) \<Rightarrow> (Inl e, tr1)
      | (Inr st1, tr1) \<Rightarrow> publish_all env mode sources st1 tr1)"

text \<open>
  \<open>main\<close>, from the loaded sources and state to the state that \<open>save_state\<close> writes, at
  the given hour of the clock.  Loading the configuration, the check of the two
  credentials and the pauses between requests are left out.
\<close>

definition main :: "'p env \<Rightarrow> nat \<Rightarrow> source list \<Rightarrow> state \<Rightarrow> (error + state) \<times> trace" where
  "main env hour sources st =
     (case refresh_all env sources st [] of
        (st1, tr1) \<Rightarrow> publish_all env (utc_mode hour) sources st1 tr1)"

section \<open>Histories and concrete environments\<close>




definition url_a :: pystr where
  "url_a = str ''https://landezine.com/park-a/''"

definition url_b :: pystr where
  "url_b = str ''https://landezine.com/lake-b/''"




definition page_ab :: pystr where
  "page_ab = str ''<a href=/park-a/>Park</a><a href=/lake-b/>Lake</a>''"



text \<open>
  The environments of the concrete runs.  In all of them the shuffle leaves the list as
  it is and every message is delivered.
  \<^item> \<open>env_down\<close>: every \<open>http_get\<close> raises.
  \<^item> \<open>env_blank\<close>: every page is fetched and is empty, with no link.
  \<^item> \<open>env_one_link\<close>: every page is \<open>page_a\<close>, linking \<open>url_a\<close>.
  \<^item> \<open>env_two_links\<close>: every page is \<open>page_ab\<close>, linking \<open>url_a\<close> and \<open>url_b\<close>.
  \<^item> \<open>env_two_pages\<close>: the front page of \<open>ex_wp\<close> is \<open>page_a\<close>, every other page is
    \<open>page_b\<close>.
  \<^item> \<open>env_empty_link\<close>: every page is \<open>feed_blank_link\<close>; read as a feed it gives the
    empty string as its one link, read as HTML it has no anchor.
  \<^item> \<open>env_bad_feed\<close>: every page is \<open>feed_broken\<close>; the extractor raises on it for a
    feed source.
\<close>

definition env_down :: "nat env" where
  "env_down =
     \<lparr>http_get = (\<lambda>t url. None),
      extract_links_from_list = (\<lambda>source html. Some []),
      shuffle = (\<lambda>t links. links),
      re_digit = ascii_digit,
      parse_html = (\<lambda>html. Some \<lparr>meta_attr = (\<lambda>prop. None), h1_text = None,
                                  select_one_text = (\<lambda>sel. None), full_text = []\<rparr>),
      re_search = (\<lambda>pat text. None),
      credit_patterns = (\<lambda>st c. []),
      tg_send_photo = (\<lambda>t photo caption. Some True),
      tg_send_message = (\<lambda>t text. Some True)\<rparr>"

definition env_blank :: "nat env" where
  "env_blank = env_down\<lparr>http_get := (\<lambda>t url. Some [])\<rparr>"


definition env_two_links :: "nat env" where
  "env_two_links =
     env_down\<lparr>http_get := (\<lambda>t url. Some page_ab),
       extract_links_from_list :=
         (\<lambda>source html. if html = page_ab then Some [url_a, url_b] else Some []),
       parse_html :=
         (\<lambda>html. Some \<lparr>meta_attr = (\<lambda>prop. None), h1_text = None,
                        select_one_text = (\<lambda>sel. None),
                        full_text = str ''Park'' @ [10] @ str ''Lake''\<rparr>)\<rparr>"




text \<open>
  Source states: the one that \<open>ensure_source_state\<close> creates; one with \<open>url_a\<close> queued;
  one with \<open>url_a\<close> sent; one of the feed source with \<open>url_d\<close> queued; one with
  \<open>url_a\<close> queued and a full history of 5000 sent URLs.
\<close>

definition fresh :: source_state where
  "fresh = \<lparr>sent_urls = [], queue_new = [], archive_page = Some 1\<rparr>"

definition queued_a :: source_state where
  "queued_a = \<lparr>sent_urls = [], queue_new = [url_a], archive_page = Some 1\<rparr>"



definition full_a :: source_state where
  "full_a = \<lparr>sent_urls = replicate 5000 url_b, queue_new = [url_a], archive_page = Some 1\<rparr>"

text \<open>Stored states for the source \<open>ex_wp\<close>, and the states after three runs of \<open>main\<close>.\<close>

definition state_a :: state where
  "state_a = Map.empty(sid ex_wp \<mapsto> queued_a)"

definition state_full :: state where
  "state_full = Map.empty(sid ex_wp \<mapsto> full_a)"

definition run1 :: state where
  "run1 = Map.empty(sid ex_wp \<mapsto>
     \<lparr>sent_urls = [url_a], queue_new = [url_b], archive_page = Some 1\<rparr>)"

definition run2 :: state where
  "run2 = Map.empty(sid ex_wp \<mapsto>
     \<lparr>sent_urls = [url_a, url_b], queue_new = [url_b], archive_page = Some 2\<rparr>)"

definition run3 :: state where
  "run3 = Map.empty(sid ex_wp \<mapsto>
     \<lparr>sent_urls = [url_a, url_b, url_b], queue_new = [], archive_page = Some 2\<rparr>)"

section \<open>Facts about the string operations\<close>

subsection \<open>Facts about stripping and splitting\<close>

lemma rstrip_set: "set (rstrip s) \<subseteq> set s"
  unfolding rstrip_def using set_dropWhileD by fastforce

lemma lstrip_head: "lstrip s = [] \<or> \<not> isspace (hd (lstrip s))"
  unfolding lstrip_def using hd_dropWhile by blast

lemma strip_head: "strip s = [] \<or> \<not> isspace (hd (strip s))"
  unfolding strip_def by (rule lstrip_head)

lemma lstrip_id: "s = [] \<or> \<not> isspace (hd s) \<Longrightarrow> lstrip s = s"
  unfolding lstrip_def by (cases s) auto

lemma rstrip_id: "s = [] \<or> \<not> isspace (last s) \<Longrightarrow> rstrip s = s"
proof (cases s rule: rev_cases)
  case Nil
  then show ?thesis by (simp add: rstrip_def)
next
  case (snoc ys y)
  assume "s = [] \<or> \<not> isspace (last s)"
  with snoc have "\<not> isspace y" by simp
  with snoc show ?thesis by (simp add: rstrip_def)
qed

lemma rstrip_head: "s = [] \<or> \<not> isspace (hd s) \<Longrightarrow> rstrip s = [] \<or> \<not> isspace (hd (rstrip s))"
proof (induction s rule: rev_induct)
  case Nil
  then show ?case by (simp add: rstrip_def)
next
  case (snoc x xs)
  show ?case
  proof (cases "isspace x")
    case False
    then have "rstrip (xs @ [x]) = xs @ [x]" by (simp add: rstrip_def)
    with snoc.prems show ?thesis by simp
  next
    case True
    then have eq: "rstrip (xs @ [x]) = rstrip xs" by (simp add: rstrip_def)
    from snoc.prems True have "xs = [] \<or> \<not> isspace (hd xs)" by (cases xs) auto
    from snoc.IH [OF this] eq show ?thesis by simp
  qed
qed

lemma split_first_head:
  "s = [] \<or> \<not> isspace (hd s) \<Longrightarrow> split_first c s = [] \<or> \<not> isspace (hd (split_first c s))"
  unfolding split_first_def by (cases s) auto

lemma split_first_absent: "c \<notin> set (split_first c s)"
  unfolding split_first_def using set_takeWhileD by fastforce

lemma split_first_set: "set (split_first c s) \<subseteq> set s"
  unfolding split_first_def using set_takeWhileD by fastforce

lemma split_first_id: "c \<notin> set s \<Longrightarrow> split_first c s = s"
  unfolding split_first_def by (auto simp: takeWhile_eq_all_conv)

lemma sublist_rstrip:
  assumes "sublist a s" and "a \<noteq> []" and "\<not> isspace (last a)"
  shows "sublist a (rstrip s)"
proof -
  from assms(1) obtain ps ss where s: "s = ps @ a @ ss" by (auto simp: sublist_def)
  from assms(2,3) have keep: "dropWhile isspace (rev a @ rev ps) = rev a @ rev ps"
    by (cases a rule: rev_cases) auto
  have "\<exists>ss'. dropWhile isspace (rev ss @ rev a @ rev ps) = ss' @ rev a @ rev ps"
  proof (cases "\<forall>x \<in> set (rev ss). isspace x")
    case True
    then have "dropWhile isspace (rev ss @ rev a @ rev ps) = dropWhile isspace (rev a @ rev ps)"
      by (simp add: dropWhile_append)
    with keep show ?thesis by auto
  next
    case False
    then have "dropWhile isspace (rev ss @ rev a @ rev ps) = dropWhile isspace (rev ss) @ rev a @ rev ps"
      by (metis dropWhile_append1)
    then show ?thesis by blast
  qed
  then obtain ss' where "dropWhile isspace (rev ss @ rev a @ rev ps) = ss' @ rev a @ rev ps" ..
  with s have "rstrip s = ps @ a @ rev ss'" by (simp add: rstrip_def)
  then show ?thesis by (auto simp: sublist_def)
qed

lemma normalize_url_head: "normalize_url u = [] \<or> \<not> isspace (hd (normalize_url u))"
  unfolding normalize_url_def Let_def
  using split_first_head [OF split_first_head [OF strip_head]] split_first_head [OF strip_head]
  by (simp split: if_splits)

lemma normalize_url_no_hash: "35 \<notin> set (normalize_url u)"
  unfolding normalize_url_def Let_def
  using split_first_absent [of 35] split_first_set [of 63] by (auto split: if_splits)

lemma normalize_url_query:
  "63 \<in> set (normalize_url u) \<Longrightarrow> contains (normalize_url u) (str ''archdaily.com/search/'')"
  unfolding normalize_url_def Let_def
  using split_first_absent [of 63] by (auto split: if_splits)

lemma normalize_url_set: "set (normalize_url u) \<subseteq> set u"
proof -
  have "set (strip u) \<subseteq> set u"
    unfolding strip_def lstrip_def using rstrip_set set_dropWhileD by fastforce
  moreover have "set (split_first 35 (strip u)) \<subseteq> set (strip u)"
    by (rule split_first_set)
  moreover have "set (split_first 63 (split_first 35 (strip u))) \<subseteq> set (split_first 35 (strip u))"
    by (rule split_first_set)
  ultimately show ?thesis
    unfolding normalize_url_def Let_def by (auto split: if_splits)
qed

lemma normalize_url_again: "normalize_url (normalize_url u) = rstrip (normalize_url u)"
proof -
  define n where "n = normalize_url u"
  have strip_n: "strip n = rstrip n"
    unfolding strip_def n_def
    by (rule lstrip_id) (rule rstrip_head [OF normalize_url_head])
  have "35 \<notin> set (rstrip n)"
    using rstrip_set [of n] normalize_url_no_hash [of u] by (auto simp: n_def)
  then have cut: "split_first 35 (rstrip n) = rstrip n" by (rule split_first_id)
  have "contains (rstrip n) (str ''archdaily.com/search/'')" if "63 \<in> set (rstrip n)"
  proof -
    from that rstrip_set [of n] have "63 \<in> set n" by auto
    then have "sublist (str ''archdaily.com/search/'') n"
      using normalize_url_query [of u] by (simp add: n_def contains_def)
    then show ?thesis
      unfolding contains_def by (rule sublist_rstrip) (simp_all add: str_def isspace_def)
  qed
  then have "normalize_url n = rstrip n"
    by (auto simp: normalize_url_def Let_def strip_n cut)
  then show ?thesis by (simp add: n_def)
qed

section \<open>Facts about pagination\<close>

lemma str_nat_nonempty: "str_nat n \<noteq> []"
  by (subst str_nat.simps) simp

lemma str_nat_inj: "str_nat n = str_nat m \<Longrightarrow> n = m"
proof (induction n arbitrary: m rule: str_nat.induct)
  case (1 n)
  show ?case
  proof (cases "n < 10")
    case True
    show ?thesis
    proof (cases "m < 10")
      case True
      with \<open>n < 10\<close> "1.prems" show ?thesis by (simp add: str_nat.simps [of n] str_nat.simps [of m])
    next
      case False
      with \<open>n < 10\<close> "1.prems" str_nat_nonempty [of "m div 10"] show ?thesis
        by (simp add: str_nat.simps [of n] str_nat.simps [of m])
    qed
  next
    case False
    show ?thesis
    proof (cases "m < 10")
      case True
      with False "1.prems" str_nat_nonempty [of "n div 10"] show ?thesis
        by (simp add: str_nat.simps [of n] str_nat.simps [of m])
    next
      case mf: False
      with False "1.prems" have "str_nat (n div 10) = str_nat (m div 10)" and "n mod 10 = m mod 10"
        by (simp_all add: str_nat.simps [of n] str_nat.simps [of m])
      with "1.IH" [OF False] have "n div 10 = m div 10" by blast
      with \<open>n mod 10 = m mod 10\<close> show ?thesis by (metis div_mult_mod_eq)
    qed
  qed
qed

lemma str_int_inj: "0 \<le> p \<Longrightarrow> 0 \<le> q \<Longrightarrow> str_int p = str_int q \<Longrightarrow> p = q"
  using str_nat_inj [of "nat p" "nat q"] by (simp add: str_int_def)

lemma str_int_nonempty: "str_int p \<noteq> []"
  by (simp add: str_int_def str_nat_nonempty)

lemma re_sub_page_length_mono:
  "length a \<le> length b \<Longrightarrow> length (re_sub_page dig a s) \<le> length (re_sub_page dig b s)"
  by (induction dig a s rule: re_sub_page.induct) auto

lemma re_sub_page_length_less:
  "length a < length b \<Longrightarrow> re_search_page dig s \<Longrightarrow>
   length (re_sub_page dig a s) < length (re_sub_page dig b s)"
proof (induction dig a s rule: re_sub_page.induct)
  case (1 dig rep)
  then show ?case by simp
next
  case (2 dig rep c r)
  show ?case
  proof (cases "page_match dig (c # r)")
    case True
    from "2.prems"(1) have "length rep \<le> length b" by simp
    from re_sub_page_length_mono [OF this, of dig "dropWhile dig (drop 5 r)"] True "2.prems"(1)
    show ?thesis by simp
  next
    case False
    with "2.prems" have "re_search_page dig r" by simp
    with "2.IH"(2) [OF False "2.prems"(1)] False show ?thesis by simp
  qed
qed

lemma re_sub_page_same_length:
  "length a = length b \<Longrightarrow> re_search_page dig s \<Longrightarrow>
   re_sub_page dig a s = re_sub_page dig b s \<Longrightarrow> a = b"
proof (induction dig a s rule: re_sub_page.induct)
  case (1 dig rep)
  then show ?case by simp
next
  case (2 dig rep c r)
  show ?case
  proof (cases "page_match dig (c # r)")
    case True
    with "2.prems"(3) "2.prems"(1) show ?thesis by simp
  next
    case False
    with "2.prems" have "re_search_page dig r" and "re_sub_page dig rep r = re_sub_page dig b r"
      by simp_all
    with "2.IH"(2) [OF False "2.prems"(1)] show ?thesis by blast
  qed
qed

lemma re_sub_page_inj:
  assumes "re_search_page dig s" and "re_sub_page dig a s = re_sub_page dig b s"
  shows "a = b"
proof -
  consider "length a < length b" | "length b < length a" | "length a = length b" by linarith
  then show ?thesis
  proof cases
    case 1
    from re_sub_page_length_less [OF 1 assms(1)] assms(2) show ?thesis by simp
  next
    case 2
    from re_sub_page_length_less [OF 2 assms(1)] assms(2) show ?thesis by simp
  next
    case 3
    from re_sub_page_same_length [OF 3 assms] show ?thesis .
  qed
qed

lemma rstrip_chars_decomp: "\<exists>t. u = rstrip_chars cs u @ t \<and> set t \<subseteq> set cs"
proof -
  have "rev u = takeWhile (\<lambda>c. c \<in> set cs) (rev u) @ dropWhile (\<lambda>c. c \<in> set cs) (rev u)"
    by simp
  then have "u = rstrip_chars cs u @ rev (takeWhile (\<lambda>c. c \<in> set cs) (rev u))"
    unfolding rstrip_chars_def by (metis rev_append rev_rev_ident)
  moreover have "set (rev (takeWhile (\<lambda>c. c \<in> set cs) (rev u))) \<subseteq> set cs"
    using set_takeWhileD by fastforce
  ultimately show ?thesis by blast
qed

lemma path_page_not_front:
  "rstrip_chars (str ''/'') u @ str ''/page/'' @ w \<noteq> u"
proof
  assume eq: "rstrip_chars (str ''/'') u @ str ''/page/'' @ w = u"
  obtain t where t: "u = rstrip_chars (str ''/'') u @ t" "set t \<subseteq> set (str ''/'')"
    using rstrip_chars_decomp by blast
  from eq t(1) have "t = str ''/page/'' @ w" by (metis same_append_eq)
  with t(2) show False by (auto simp: str_def)
qed

section \<open>Facts about project extraction\<close>

lemma rs_nospace: "\<forall>c \<in> set s. \<not> isspace c \<Longrightarrow> re_sub_spaces s = s"
  by (induction s) auto

lemma rs_append_nospace: "\<forall>c \<in> set s. \<not> isspace c \<Longrightarrow> re_sub_spaces (s @ t) = s @ re_sub_spaces t"
  by (induction s) auto

lemma long_desc_norm: "re_sub_spaces (strip long_desc) = long_desc"
proof -
  have a: "\<forall>c \<in> set (replicate 316 (97::nat)). \<not> isspace c" by (simp add: isspace_def)
  have b: "\<forall>c \<in> set (replicate 10 (98::nat)). \<not> isspace c" by (simp add: isspace_def)
  have "rstrip long_desc = long_desc"
    by (rule rstrip_id) (simp add: long_desc_def isspace_def)
  moreover have "lstrip long_desc = long_desc"
    by (rule lstrip_id) (simp add: long_desc_def isspace_def hd_append)
  ultimately have "strip long_desc = long_desc" by (simp add: strip_def)
  moreover have "re_sub_spaces long_desc = long_desc"
    unfolding long_desc_def using a b
    by (simp add: rs_append_nospace rs_nospace isspace_def dropWhile_append)
  ultimately show ?thesis by simp
qed

lemma trim_long: "trim_desc (Some long_desc) = Some (replicate 316 97 @ [8230])"
proof -
  have "take 317 long_desc = replicate 316 97 @ [32]" by (simp add: long_desc_def)
  moreover have "rstrip (replicate 316 97 @ [32]) = replicate 316 97"
    by (simp add: rstrip_def isspace_def)
  moreover have "long_desc \<noteq> []" "length long_desc = 327" by (simp_all add: long_desc_def)
  ultimately show ?thesis
    by (simp add: trim_desc_def long_desc_norm)
qed

lemma re_sub_spaces_hd:
  "s \<noteq> [] \<Longrightarrow> \<not> isspace (hd s) \<Longrightarrow> re_sub_spaces s \<noteq> [] \<and> hd (re_sub_spaces s) = hd s"
  by (cases s) auto

lemma re_sub_spaces_single:
  "Suc i < length (re_sub_spaces s) \<Longrightarrow> isspace (re_sub_spaces s ! i) \<Longrightarrow>
   \<not> isspace (re_sub_spaces s ! Suc i)"
proof (induction s arbitrary: i rule: re_sub_spaces.induct)
  case 1
  then show ?case by simp
next
  case (2 c r)
  show ?case
  proof (cases "isspace c")
    case True
    define w where "w = dropWhile isspace r"
    have out: "re_sub_spaces (c # r) = 32 # re_sub_spaces w" using True by (simp add: w_def)
    show ?thesis
    proof (cases i)
      case 0
      with "2.prems"(1) out have "re_sub_spaces w \<noteq> []" by auto
      then have "w \<noteq> []" by auto
      moreover from this have "\<not> isspace (hd w)" unfolding w_def by (rule hd_dropWhile)
      ultimately have "re_sub_spaces w \<noteq> [] \<and> hd (re_sub_spaces w) = hd w"
        by (rule re_sub_spaces_hd)
      then have "re_sub_spaces w ! 0 = hd w" by (metis hd_conv_nth)
      with \<open>\<not> isspace (hd w)\<close> show ?thesis unfolding 0 out by simp
    next
      case (Suc j)
      with "2.prems" out have "Suc j < length (re_sub_spaces w)" "isspace (re_sub_spaces w ! j)"
        by simp_all
      with "2.IH"(1) [OF True] have "\<not> isspace (re_sub_spaces w ! Suc j)" by (simp add: w_def)
      with Suc out show ?thesis by simp
    qed
  next
    case False
    then have out: "re_sub_spaces (c # r) = c # re_sub_spaces r" by simp
    show ?thesis
    proof (cases i)
      case 0
      with "2.prems"(2) out False show ?thesis by simp
    next
      case (Suc j)
      with "2.prems" out have "Suc j < length (re_sub_spaces r)" "isspace (re_sub_spaces r ! j)"
        by simp_all
      with "2.IH"(2) [OF False] have "\<not> isspace (re_sub_spaces r ! Suc j)" by blast
      with Suc out show ?thesis by simp
    qed
  qed
qed

lemma rstrip_snoc_space: "isspace x \<Longrightarrow> rstrip (xs @ [x]) = rstrip xs"
  by (simp add: rstrip_def)

lemma strip_set: "set (strip s) \<subseteq> set s"
  unfolding strip_def lstrip_def using rstrip_set set_dropWhileD by fastforce

lemma credit_value_no_separator: "c \<in> set (credit_value g) \<Longrightarrow> \<not> is_separator c"
proof -
  assume "c \<in> set (credit_value g)"
  then have "c \<in> set (takeWhile (\<lambda>c. \<not> is_separator c) (strip g))"
    unfolding credit_value_def using strip_set by blast
  then show ?thesis using set_takeWhileD by fastforce
qed

lemma find_credit_char:
  "find_credit rs text pats =
     (case filter valid_credit (map credit_value (List.map_filter (\<lambda>p. rs p text) pats)) of
        [] \<Rightarrow> None | v # _ \<Rightarrow> Some v)"
  by (induction pats) (auto simp: valid_credit_def Let_def split: option.splits)


section \<open>Facts about selection and publishing\<close>

lemma cursor_update [simp]: "cursor (s\<lparr>archive_page := Some p\<rparr>) = p"
  by (simp add: cursor_def)

lemma pick_old_loop_Suc:
  "pick_old_loop env source sent (Suc n) s tr =
     (case http_get env (length tr) (build_paged_url (re_digit env) source (cursor s)) of
        None \<Rightarrow>
          (Inr None, s, tr @ [HttpGet (build_paged_url (re_digit env) source (cursor s)) False])
      | Some html \<Rightarrow>
          (case extract_links_from_list env source html of
             None \<Rightarrow>
               (Inl ParseError, s,
                tr @ [HttpGet (build_paged_url (re_digit env) source (cursor s)) True])
           | Some links \<Rightarrow>
               (case find (\<lambda>u. u \<notin> sent) (shuffle env (length tr) links) of
                  Some u \<Rightarrow>
                    (Inr (Some u), s\<lparr>archive_page := Some (cursor s + 1)\<rparr>,
                     tr @ [HttpGet (build_paged_url (re_digit env) source (cursor s)) True])
                | None \<Rightarrow>
                    pick_old_loop env source sent n (s\<lparr>archive_page := Some (cursor s + 1)\<rparr>)
                      (tr @ [HttpGet (build_paged_url (re_digit env) source (cursor s)) True]))))"
  by (simp add: fetch_def Let_def split: option.splits)

declare pick_old_loop.simps(2) [simp del]

lemma pick_old_loop_trace:
  "pick_old_loop env source sent n s tr = (r, s', tr') \<Longrightarrow>
   \<exists>evs. tr' = tr @ evs \<and> length evs \<le> n \<and> list_all is_fetch evs \<and>
     list_all fetch_ok (butlast evs) \<and>
     (evs \<noteq> [] \<and> \<not> fetch_ok (last evs) \<longrightarrow> r = Inr None) \<and>
     cursor s' = cursor s + int (length (filter fetch_ok evs))
                   - (if r = Inl ParseError then 1 else 0) \<and>
     cursor s \<le> cursor s' \<and>
     s' = (if cursor s' = cursor s then s else s\<lparr>archive_page := Some (cursor s')\<rparr>)"
proof (induction n arbitrary: s tr)
  case 0
  then show ?case by auto
next
  case (Suc n)
  define url where "url = build_paged_url (re_digit env) source (cursor s)"
  show ?case
  proof (cases "http_get env (length tr) url")
    case None
    with Suc.prems have "r = Inr None" "s' = s" "tr' = tr @ [HttpGet url False]"
      unfolding pick_old_loop_Suc url_def by auto
    then show ?thesis by simp
  next
    case (Some html)
    note html = this
    show ?thesis
    proof (cases "extract_links_from_list env source html")
      case None
      with Suc.prems html have "r = Inl ParseError" "s' = s" "tr' = tr @ [HttpGet url True]"
        unfolding pick_old_loop_Suc url_def by auto
      then show ?thesis by simp
    next
      case (Some links)
      note links = this
      show ?thesis
      proof (cases "find (\<lambda>u. u \<notin> sent) (shuffle env (length tr) links)")
        case (Some u)
        with Suc.prems html links have "r = Inr (Some u)"
          "s' = s\<lparr>archive_page := Some (cursor s + 1)\<rparr>" "tr' = tr @ [HttpGet url True]"
          unfolding pick_old_loop_Suc url_def by auto
        then show ?thesis by simp
      next
        case None
        define s1 where "s1 = s\<lparr>archive_page := Some (cursor s + 1)\<rparr>"
        from None Suc.prems html links have rec:
          "pick_old_loop env source sent n s1 (tr @ [HttpGet url True]) = (r, s', tr')"
          unfolding pick_old_loop_Suc url_def s1_def by auto
        have c1: "cursor s1 = cursor s + 1" by (simp add: s1_def)
        from Suc.IH [OF rec] obtain evs where evs:
          "tr' = (tr @ [HttpGet url True]) @ evs" "length evs \<le> n" "list_all is_fetch evs"
          "list_all fetch_ok (butlast evs)"
          "evs \<noteq> [] \<and> \<not> fetch_ok (last evs) \<longrightarrow> r = Inr None"
          "cursor s' = cursor s1 + int (length (filter fetch_ok evs))
                   - (if r = Inl ParseError then 1 else 0)"
          "cursor s1 \<le> cursor s'"
          "s' = (if cursor s' = cursor s1 then s1 else s1\<lparr>archive_page := Some (cursor s')\<rparr>)"
          by blast
        have "tr' = tr @ (HttpGet url True # evs)" using evs(1) by simp
        moreover have "length (HttpGet url True # evs) \<le> Suc n" using evs(2) by simp
        moreover have "list_all is_fetch (HttpGet url True # evs)" using evs(3) by simp
        moreover have "list_all fetch_ok (butlast (HttpGet url True # evs))" using evs(4) by simp
        moreover have "HttpGet url True # evs \<noteq> [] \<and> \<not> fetch_ok (last (HttpGet url True # evs))
            \<longrightarrow> r = Inr None" using evs(5) by auto
        moreover have "cursor s' = cursor s + int (length (filter fetch_ok (HttpGet url True # evs)))
                   - (if r = Inl ParseError then 1 else 0)"
          using evs(6) c1 by simp
        moreover have "cursor s \<le> cursor s'" using evs(7) c1 by simp
        moreover have "s' = (if cursor s' = cursor s then s
            else s\<lparr>archive_page := Some (cursor s')\<rparr>)"
        proof -
          define c where "c = cursor s'"
          from evs(7) c1 have ne: "c \<noteq> cursor s" by (simp add: c_def)
          from evs(8) have e8: "s' = (if c = cursor s + 1 then s1 else s1\<lparr>archive_page := Some c\<rparr>)"
            by (simp only: c_def c1)
          have "s' = s\<lparr>archive_page := Some c\<rparr>"
          proof (cases "c = cursor s + 1")
            case True
            with e8 have "s' = s1" by simp
            with True show ?thesis by (simp add: s1_def)
          next
            case False
            with e8 have "s' = s1\<lparr>archive_page := Some c\<rparr>" by simp
            then show ?thesis by (simp add: s1_def)
          qed
          with ne have "s' = (if c = cursor s then s else s\<lparr>archive_page := Some c\<rparr>)" by simp
          then show ?thesis by (simp only: c_def)
        qed
        ultimately show ?thesis by blast
      qed
    qed
  qed
qed

lemma pick_old_loop_frame:
  "pick_old_loop env source sent n s tr = (r, s', tr') \<Longrightarrow>
   sent_urls s' = sent_urls s \<and> queue_new s' = queue_new s"
proof (induction n arbitrary: s tr)
  case 0
  then show ?case by simp
next
  case (Suc n)
  from Suc.prems show ?case
    unfolding pick_old_loop_Suc using Suc.IH by (fastforce split: option.splits)
qed

lemma pick_old_loop_unseen:
  "pick_old_loop env source sent n s tr = (Inr (Some u), s', tr') \<Longrightarrow> u \<notin> sent"
proof (induction n arbitrary: s tr)
  case 0
  then show ?case by simp
next
  case (Suc n)
  from Suc.prems show ?case
    unfolding pick_old_loop_Suc using Suc.IH
    by (fastforce simp: find_Some_iff split: option.splits)
qed





lemma add_loop_filter:
  "add_loop sent queued q links = q @ filter (\<lambda>u. u \<notin> sent \<and> u \<notin> queued) links"
  by (induction links arbitrary: q) auto

lemma add_new_links_queue:
  "queue_new (add_new_links_to_queue s links) =
     queue_new s @ filter (\<lambda>u. u \<notin> set (sent_urls s) \<and> u \<notin> set (queue_new s)) links"
  by (simp add: add_new_links_to_queue_def add_loop_filter)

lemma pick_old_link_frame:
  "pick_old_link env source s tr = (r, s', tr') \<Longrightarrow>
   sent_urls s' = sent_urls s \<and> queue_new s' = queue_new s"
  unfolding pick_old_link_def by (rule pick_old_loop_frame)

lemma pick_old_link_unseen:
  "pick_old_link env source s tr = (Inr (Some u), s', tr') \<Longrightarrow> u \<notin> set (sent_urls s)"
  unfolding pick_old_link_def by (rule pick_old_loop_unseen)

lemma pick_old_link_fetches:
  "pick_old_link env source s tr = (r, s', tr') \<Longrightarrow> \<exists>evs. tr' = tr @ evs \<and> list_all is_fetch evs"
  unfolding pick_old_link_def using pick_old_loop_trace by blast

lemma pick_link_for_run_cases:
  assumes "pick_link_for_run env source mode s tr = (r, s', tr')"
  shows "(mode = str ''morning'' \<and> queue_new s \<noteq> [] \<and> r = Inr (Some (hd (queue_new s))) \<and>
            s' = s\<lparr>queue_new := tl (queue_new s)\<rparr> \<and> tr' = tr) \<or>
         (mode = str ''morning'' \<and> queue_new s = [] \<and> pick_old_link env source s tr = (r, s', tr')) \<or>
         (mode \<noteq> str ''morning'' \<and> pick_old_link env source s tr = (r, s', tr') \<and>
            (case r of Inl e \<Rightarrow> True | Inr old \<Rightarrow> truthy old \<or> (old = None \<and> queue_new s = []))) \<or>
         (mode \<noteq> str ''morning'' \<and> queue_new s \<noteq> [] \<and>
            (\<exists>old s1. pick_old_link env source s tr = (Inr old, s1, tr') \<and> \<not> truthy old \<and>
               r = Inr (Some (hd (queue_new s))) \<and> s' = s1\<lparr>queue_new := tl (queue_new s)\<rparr>)) \<or>
         (mode \<noteq> str ''morning'' \<and> queue_new s = [] \<and> r = Inr None \<and>
            pick_old_link env source s tr = (Inr (Some []), s', tr'))"
proof (cases "mode = str ''morning''")
  case True
  with assms show ?thesis
    by (cases "queue_new s") (auto simp: pick_link_for_run_def)
next
  case False
  obtain r0 s1 tr1 where old: "pick_old_link env source s tr = (r0, s1, tr1)"
    by (cases "pick_old_link env source s tr") auto
  from pick_old_link_frame [OF old] have q: "queue_new s1 = queue_new s" by simp
  show ?thesis
  proof (cases r0)
    case (Inl e)
    with assms False old show ?thesis by (auto simp: pick_link_for_run_def)
  next
    case (Inr o1)
    show ?thesis
    proof (cases "truthy o1")
      case True
      with assms False old Inr show ?thesis by (auto simp: pick_link_for_run_def)
    next
      case nt: False
      show ?thesis
      proof (cases "queue_new s")
        case Nil
        with assms False old Inr nt q have "r = Inr None" "s' = s1" "tr' = tr1"
          by (auto simp: pick_link_for_run_def)
        moreover from nt have "o1 = None \<or> o1 = Some []"
          by (auto simp: truthy_def split: option.splits)
        ultimately show ?thesis using False old Inr Nil by auto
      next
        case (Cons u rest)
        with assms False old Inr nt q have "r = Inr (Some u)" "s' = s1\<lparr>queue_new := rest\<rparr>" "tr' = tr1"
          by (auto simp: pick_link_for_run_def)
        with False old Inr nt Cons show ?thesis by auto
      qed
    qed
  qed
qed

lemma pick_link_for_run_frame:
  assumes "pick_link_for_run env source mode s tr = (r, s', tr')"
  shows "sent_urls s' = sent_urls s \<and> (\<exists>evs. tr' = tr @ evs \<and> list_all is_fetch evs)"
  using pick_link_for_run_cases [OF assms]
  by (elim disjE conjE exE)
    (use pick_old_link_frame pick_old_link_fetches in \<open>fastforce\<close>)+

lemma parse_project_trace:
  "parse_project env link tr = (r, tr') \<Longrightarrow>
   tr' = tr @ [HttpGet link (http_get env (length tr) link \<noteq> None)]"
  by (auto simp: parse_project_def fetch_def Let_def split: option.splits)

lemma notify_result:
  "notify env text st tr =
     ((case tg_send_message env (length tr) text of None \<Rightarrow> Inl RequestError | Some ok \<Rightarrow> Inr st),
      tr @ [SendMessage text])"
  by (simp add: notify_def send_message_def split: option.splits)

lemma mark_sent_sent:
  "sent_urls (mark_sent s link) = drop (length (sent_urls s @ [link]) - 5000) (sent_urls s @ [link])"
  by (simp add: mark_sent_def Let_def)


lemma publish_source_published:
  assumes "ensure_source_state st (sid src) (sid src) = Some s"
    and "pick_link_for_run env src mode s tr = (Inr (Some link), s1, tr1)"
    and "link \<noteq> []"
    and "fst (try_publish env src link tr1) = Inr ()"
  shows "fst (publish_source env mode src st tr) =
           Inr ((ensure_source_state st (sid src))(sid src \<mapsto> mark_sent s1 link))"
proof -
  obtain tr2 where "try_publish env src link tr1 = (Inr (), tr2)"
    using assms(4) by (cases "try_publish env src link tr1") auto
  with assms(1,2,3) show ?thesis by (simp add: publish_source_def Let_def)
qed

lemma main_single:
  "refresh_source env src st [] = (st1, tr1) \<Longrightarrow>
   fst (main env hour [src] st) = fst (publish_source env (utc_mode hour) src st1 tr1)"
  by (cases "publish_source env (utc_mode hour) src st1 tr1")
    (auto simp: main_def split: sum.splits)

lemma front_page: "build_paged_url ascii_digit ex_wp 1 = str ''https://landezine.com/landscapes/''"
  by (simp add: build_paged_url_def ex_wp_def)











section \<open>Deduplication\<close>

text \<open>
  C1.  The claim is that a URL, once in \<open>sent_urls\<close>, is never again in \<open>queue_new\<close>
  and never again returned by the selection.  The code does not keep it.  Three runs of
  \<open>main\<close> without any failure, from the empty state, for the one source \<open>ex_wp\<close> whose
  listing always links \<open>url_a\<close> and \<open>url_b\<close>: the morning run queues both and publishes
  \<open>url_a\<close>; the evening run scans page 1 of the backlog, which is the same listing, finds
  \<open>url_b\<close> unseen (\<open>pick_old_link\<close> looks at \<open>sent_urls\<close> only) and publishes it, and
  \<open>url_b\<close> stays in \<open>queue_new\<close>; the next morning run pops \<open>url_b\<close> from the queue
  and publishes it a second time.
\<close>

theorem main_publishes_twice:
  "fst (main env_two_links 5 [ex_wp] Map.empty) = Inr run1 \<and>
   fst (main env_two_links 15 [ex_wp] run1) = Inr run2 \<and>
   fst (main env_two_links 5 [ex_wp] run2) = Inr run3 \<and>
   run2 (sid ex_wp) =
     Some \<lparr>sent_urls = [url_a, url_b], queue_new = [url_b], archive_page = Some 2\<rparr> \<and>
   run3 (sid ex_wp) =
     Some \<lparr>sent_urls = [url_a, url_b, url_b], queue_new = [], archive_page = Some 2\<rparr>"
proof -
  have ne: "url_a \<noteq> url_b" "url_b \<noteq> url_a" "url_a \<noteq> []" "url_b \<noteq> []"
    by (simp_all add: url_a_def url_b_def str_def)
  have modes: "utc_mode 5 = str ''morning''" "utc_mode 15 = str ''evening''"
    "str ''evening'' \<noteq> str ''morning''"
    by (simp_all add: utc_mode_def str_def)
  have ok: "fst (try_publish env_two_links ex_wp link tr) = Inr ()" for link tr
    by (simp add: try_publish_def parse_project_def fetch_def env_two_links_def env_down_def
        meta_content_def send_message_def Let_def)
  have get: "fetch env_two_links url tr = (Some page_ab, tr @ [HttpGet url True])" for url tr
    by (simp add: fetch_def env_two_links_def env_down_def)
  have ext: "extract_links_from_list env_two_links ex_wp page_ab = Some [url_a, url_b]"
    by (simp add: env_two_links_def env_down_def)
  define front where "front = [HttpGet (list_url ex_wp) True]"
  define q0 where "q0 = \<lparr>sent_urls = [], queue_new = [url_a, url_b], archive_page = Some 1\<rparr>"
  define q1 where "q1 = \<lparr>sent_urls = [url_a], queue_new = [url_b], archive_page = Some 1\<rparr>"
  define q2 where
    "q2 = \<lparr>sent_urls = [url_a, url_b], queue_new = [url_b], archive_page = Some 2\<rparr>"
  define q3 where
    "q3 = \<lparr>sent_urls = [url_a, url_b, url_b], queue_new = [], archive_page = Some 2\<rparr>"
  have st: "run1 = Map.empty(sid ex_wp \<mapsto> q1)" "run2 = Map.empty(sid ex_wp \<mapsto> q2)"
    "run3 = Map.empty(sid ex_wp \<mapsto> q3)"
    by (simp_all add: run1_def run2_def run3_def q1_def q2_def q3_def)

  text \<open>The first run, in the morning.\<close>
  have f1: "refresh_source env_two_links ex_wp Map.empty [] =
      (Map.empty(sid ex_wp \<mapsto> q0), front)"
    using ne
    by (simp add: refresh_source_def ensure_source_state_def get ext add_new_links_to_queue_def
        q0_def front_def Let_def)
  have e1: "ensure_source_state (Map.empty(sid ex_wp \<mapsto> q0)) (sid ex_wp) (sid ex_wp) = Some q0"
    by (simp add: ensure_source_state_def)
  have p1: "pick_link_for_run env_two_links ex_wp (str ''morning'') q0 front =
      (Inr (Some url_a), q0\<lparr>queue_new := [url_b]\<rparr>, front)"
    by (simp add: pick_link_for_run_def q0_def)
  have r1: "fst (main env_two_links 5 [ex_wp] Map.empty) = Inr run1"
    unfolding main_single [OF f1] modes publish_source_published [OF e1 p1 ne(3) ok]
    by (simp add: st ensure_source_state_def mark_sent_def q0_def q1_def Let_def)

  text \<open>The second run, in the evening.\<close>
  have f2: "refresh_source env_two_links ex_wp run1 [] = (run1, front)"
    using ne
    by (simp add: refresh_source_def ensure_source_state_def get ext add_new_links_to_queue_def
        st q1_def front_def Let_def)
  have e2: "ensure_source_state run1 (sid ex_wp) (sid ex_wp) = Some q1"
    by (simp add: ensure_source_state_def st)
  have old: "pick_old_link env_two_links ex_wp q1 front =
      (Inr (Some url_b), q1\<lparr>archive_page := Some 2\<rparr>,
       front @ [HttpGet (str ''https://landezine.com/landscapes/'') True])"
    using ne
    by (simp add: pick_old_link_def pick_old_loop_Suc numeral_eq_Suc env_two_links_def
        env_down_def front_page cursor_def q1_def)
  have p2: "pick_link_for_run env_two_links ex_wp (str ''evening'') q1 front =
      (Inr (Some url_b), q1\<lparr>archive_page := Some 2\<rparr>,
       front @ [HttpGet (str ''https://landezine.com/landscapes/'') True])"
    using ne modes(3) by (simp add: pick_link_for_run_def old truthy_def)
  have r2: "fst (main env_two_links 15 [ex_wp] run1) = Inr run2"
    unfolding main_single [OF f2] modes publish_source_published [OF e2 p2 ne(4) ok]
    by (simp add: st ensure_source_state_def mark_sent_def q1_def q2_def Let_def)

  text \<open>The third run, in the morning again.\<close>
  have f3: "refresh_source env_two_links ex_wp run2 [] = (run2, front)"
    using ne
    by (simp add: refresh_source_def ensure_source_state_def get ext add_new_links_to_queue_def
        st q2_def front_def Let_def)
  have e3: "ensure_source_state run2 (sid ex_wp) (sid ex_wp) = Some q2"
    by (simp add: ensure_source_state_def st)
  have p3: "pick_link_for_run env_two_links ex_wp (str ''morning'') q2 front =
      (Inr (Some url_b), q2\<lparr>queue_new := []\<rparr>, front)"
    by (simp add: pick_link_for_run_def q2_def)
  have r3: "fst (main env_two_links 5 [ex_wp] run2) = Inr run3"
    unfolding main_single [OF f3] modes publish_source_published [OF e3 p3 ne(4) ok]
    by (simp add: st ensure_source_state_def mark_sent_def q2_def q3_def Let_def)
  from r1 r2 r3 show ?thesis by (simp add: run2_def run3_def)
qed

text \<open>
  The comparisons are made on the URL strings as they are (\<open>normalize_url\<close> is called
  nowhere): a listing that links the same article with and without a tracking parameter
  gets both URLs queued, and they have the same normal form.
\<close>

lemma queue_normalized_duplicate:
  "queue_new (add_new_links_to_queue fresh
      [str ''https://landezine.com/park-a/'', str ''https://landezine.com/park-a/?utm=rss'']) =
     [str ''https://landezine.com/park-a/'', str ''https://landezine.com/park-a/?utm=rss''] \<and>
   normalize_url (str ''https://landezine.com/park-a/?utm=rss'') =
     normalize_url (str ''https://landezine.com/park-a/'')"
proof -
  have q: "queue_new (add_new_links_to_queue fresh
      [str ''https://landezine.com/park-a/'', str ''https://landezine.com/park-a/?utm=rss'']) =
     [str ''https://landezine.com/park-a/'', str ''https://landezine.com/park-a/?utm=rss'']"
    by (simp add: add_new_links_to_queue_def fresh_def str_def)
  have n: "normalize_url (str ''https://landezine.com/park-a/?utm=rss'') =
     normalize_url (str ''https://landezine.com/park-a/'')"
    by (simp add: normalize_url_def split_first_def strip_def lstrip_def rstrip_def
        str_def isspace_def contains_def Let_def sublist_code)
  from q n show ?thesis by blast
qed

text \<open>
  What the code does keep: refresh leaves \<open>sent_urls\<close> alone and appends to \<open>queue_new\<close>,
  in order, the extracted links that are neither in \<open>sent_urls\<close> nor in the queue as it
  was; and \<open>pick_old_link\<close> only returns a URL that is not in \<open>sent_urls\<close>.
\<close>

lemma refresh_and_scan_skip_sent:
  "sent_urls (add_new_links_to_queue s links) = sent_urls s \<and>
   queue_new (add_new_links_to_queue s links) =
     queue_new s @ filter (\<lambda>u. u \<notin> set (sent_urls s) \<and> u \<notin> set (queue_new s)) links \<and>
   (pick_old_link env source s tr = (Inr (Some u), s', tr') \<longrightarrow> u \<notin> set (sent_urls s))"
  using pick_old_link_unseen [of env source s tr u s' tr']
  by (simp add: add_new_links_queue) (simp add: add_new_links_to_queue_def)

section \<open>Failure of the project extraction\<close>

text \<open>
  C2 (as amended).  Let \<open>s\<close> be the state of a source when its iteration of the publish
  loop starts, let \<open>pick_link_for_run\<close> select a non-empty link and leave the state
  \<open>s1\<close>, and let \<open>parse_project\<close> raise a transport or parse failure for that link.
  Then the only thing sent in this iteration is one error notice for the source, and the
  state kept for the source is \<open>s1\<close>: \<open>sent_urls\<close> is as before the selection (the link is
  not marked sent), while the change that the selection itself made (the link popped from
  \<open>queue_new\<close>, or \<open>archive_page\<close> advanced) stays.  If sending the notice raises, the
  run ends with that exception and saves nothing.
\<close>

theorem publish_source_parse_failure:
  assumes "ensure_source_state st (sid src) (sid src) = Some s"
    and "pick_link_for_run env src mode s tr = (Inr (Some link), s1, tr1)"
    and "link \<noteq> []"
    and "parse_project env link tr1 = (Inl e, tr2)"
  shows "publish_source env mode src st tr =
           ((case tg_send_message env (length tr2) (error_notice src link) of
               None \<Rightarrow> Inl RequestError
             | Some ok \<Rightarrow> Inr ((ensure_source_state st (sid src))(sid src \<mapsto> s1))),
            tr2 @ [SendMessage (error_notice src link)]) \<and>
         sent_urls s1 = sent_urls s \<and>
         (\<exists>evs. tr2 @ [SendMessage (error_notice src link)] = tr @ evs \<and>
            filter (\<lambda>ev. \<not> is_fetch ev) evs = [SendMessage (error_notice src link)])"
proof (intro conjI)
  from assms(4) have "try_publish env src link tr1 = (Inl e, tr2)"
    by (simp add: try_publish_def)
  with assms(1,2,3) show "publish_source env mode src st tr =
           ((case tg_send_message env (length tr2) (error_notice src link) of
               None \<Rightarrow> Inl RequestError
             | Some ok \<Rightarrow> Inr ((ensure_source_state st (sid src))(sid src \<mapsto> s1))),
            tr2 @ [SendMessage (error_notice src link)])"
    by (simp add: publish_source_def Let_def notify_result)
  from pick_link_for_run_frame [OF assms(2)] obtain evs where
    frame: "sent_urls s1 = sent_urls s" "tr1 = tr @ evs" "list_all is_fetch evs" by blast
  from frame(1) show "sent_urls s1 = sent_urls s" .
  from parse_project_trace [OF assms(4)] obtain ok where "tr2 = tr1 @ [HttpGet link ok]" by blast
  with frame(2) have "tr2 @ [SendMessage (error_notice src link)] =
      tr @ (evs @ [HttpGet link ok, SendMessage (error_notice src link)])" by simp
  moreover from frame(3) have "filter (\<lambda>ev. \<not> is_fetch ev)
      (evs @ [HttpGet link ok, SendMessage (error_notice src link)]) =
      [SendMessage (error_notice src link)]"
    by (simp add: list_all_iff)
  ultimately show "\<exists>evs. tr2 @ [SendMessage (error_notice src link)] = tr @ evs \<and>
      filter (\<lambda>ev. \<not> is_fetch ev) evs = [SendMessage (error_notice src link)]" by blast
qed

theorem publish_source_parse_failure_witness:
  "ensure_source_state state_a (sid ex_wp) (sid ex_wp) = Some queued_a \<and>
   pick_link_for_run env_down ex_wp (str ''morning'') queued_a [] =
     (Inr (Some url_a), queued_a\<lparr>queue_new := []\<rparr>, []) \<and>
   url_a \<noteq> [] \<and>
   parse_project env_down url_a [] = (Inl RequestError, [HttpGet url_a False]) \<and>
   publish_source env_down (str ''morning'') ex_wp state_a [] =
     (Inr (state_a(sid ex_wp \<mapsto> queued_a\<lparr>queue_new := []\<rparr>)),
      [HttpGet url_a False, SendMessage (error_notice ex_wp url_a)]) \<and>
   sent_urls (queued_a\<lparr>queue_new := []\<rparr>) = sent_urls queued_a"
proof -
  have a: "ensure_source_state state_a (sid ex_wp) (sid ex_wp) = Some queued_a"
    by (simp add: ensure_source_state_def state_a_def)
  have b: "pick_link_for_run env_down ex_wp (str ''morning'') queued_a [] =
     (Inr (Some url_a), queued_a\<lparr>queue_new := []\<rparr>, [])"
    by (simp add: pick_link_for_run_def queued_a_def)
  have c: "url_a \<noteq> []" by (simp add: url_a_def str_def)
  have d: "parse_project env_down url_a [] = (Inl RequestError, [HttpGet url_a False])"
    by (simp add: parse_project_def fetch_def env_down_def)
  have e: "ensure_source_state state_a (sid ex_wp) = state_a"
    by (simp add: ensure_source_state_def state_a_def)
  have f: "tg_send_message env_down (length [HttpGet url_a False]) (error_notice ex_wp url_a)
      = Some True" by (simp add: env_down_def)
  from publish_source_parse_failure [OF a b c d]
  have "publish_source env_down (str ''morning'') ex_wp state_a [] =
     (Inr (state_a(sid ex_wp \<mapsto> queued_a\<lparr>queue_new := []\<rparr>)),
      [HttpGet url_a False, SendMessage (error_notice ex_wp url_a)])"
    and "sent_urls (queued_a\<lparr>queue_new := []\<rparr>) = sent_urls queued_a"
    unfolding e f by simp_all
  with a b c d show ?thesis by blast
qed

text \<open>
  C2, counterexample.  The source has \<open>url_a\<close> queued, the mode is prefer-new and the
  fetch of \<open>url_a\<close> fails.  After the iteration the queue of the source is empty: its
  state is not the state before the selection, and \<open>url_a\<close> is in neither list.
\<close>

theorem publish_source_state_changed:
  "state_a (sid ex_wp) = Some queued_a \<and>
   parse_project env_down url_a [] = (Inl RequestError, [HttpGet url_a False]) \<and>
   publish_source env_down (str ''morning'') ex_wp state_a [] =
     (Inr (state_a(sid ex_wp \<mapsto> queued_a\<lparr>queue_new := []\<rparr>)),
      [HttpGet url_a False, SendMessage (error_notice ex_wp url_a)]) \<and>
   queued_a\<lparr>queue_new := []\<rparr> \<noteq> queued_a"
proof -
  have "publish_source env_down (str ''morning'') ex_wp state_a [] =
     (Inr (state_a(sid ex_wp \<mapsto> queued_a\<lparr>queue_new := []\<rparr>)),
      [HttpGet url_a False, SendMessage (error_notice ex_wp url_a)])"
    by (simp add: publish_source_def ensure_source_state_def state_a_def pick_link_for_run_def
        queued_a_def try_publish_def parse_project_def fetch_def env_down_def notify_result
        url_a_def str_def)
  moreover have "parse_project env_down url_a [] = (Inl RequestError, [HttpGet url_a False])"
    by (simp add: parse_project_def fetch_def env_down_def)
  moreover have "queued_a\<lparr>queue_new := []\<rparr> \<noteq> queued_a"
    by (simp add: queued_a_def)
  moreover have "state_a (sid ex_wp) = Some queued_a" by (simp add: state_a_def)
  ultimately show ?thesis by blast
qed

section \<open>Pagination\<close>

text \<open>
  C3 (as amended).  For every source, strategy tag and digit table: page 1 is the source's
  \<open>list_url\<close> unchanged; two distinct page numbers from 2 on give distinct URLs; and a page
  number \<open>p\<close> from 2 on gives the URL of page 1 in one case only: the strategy is
  \<open>archdaily_search_page\<close>, \<open>list_url\<close> holds a \<open>?\<close> and a \<open>page=\<close> parameter with digits,
  and rewriting every such parameter to \<open>p\<close> gives \<open>list_url\<close> back.  In every other case
  the URL of page \<open>p\<close> differs from that of page 1.  The model is a function of the source,
  the page number and the digit table alone, so equal inputs give equal URLs.
\<close>

theorem build_paged_url_pages:
  "build_paged_url dig s 1 = list_url s \<and>
   (2 \<le> p \<and> 2 \<le> q \<and> p \<noteq> q \<longrightarrow> build_paged_url dig s p \<noteq> build_paged_url dig s q) \<and>
   (2 \<le> p \<longrightarrow>
      (build_paged_url dig s p = build_paged_url dig s 1 \<longleftrightarrow>
         paging s = str ''archdaily_search_page'' \<and> 63 \<in> set (list_url s) \<and>
         re_search_page dig (list_url s) \<and>
         re_sub_page dig (str_int p) (list_url s) = list_url s))"
proof (intro conjI impI)
  show "build_paged_url dig s 1 = list_url s" by (simp add: build_paged_url_def)
next
  assume h: "2 \<le> p \<and> 2 \<le> q \<and> p \<noteq> q"
  then have ne: "str_int p \<noteq> str_int q" using str_int_inj [of p q] by auto
  then have "re_sub_page dig (str_int p) (list_url s) \<noteq> re_sub_page dig (str_int q) (list_url s)"
    if "re_search_page dig (list_url s)"
    using re_sub_page_inj [OF that] by blast
  with h ne show "build_paged_url dig s p \<noteq> build_paged_url dig s q"
    by (simp add: build_paged_url_def)
next
  assume p: "2 \<le> p"
  have first: "build_paged_url dig s 1 = list_url s" by (simp add: build_paged_url_def)
  have path: "rstrip_chars (str ''/'') (list_url s) @ str ''/page/'' @ w \<noteq> list_url s" for w
    by (rule path_page_not_front)
  show "build_paged_url dig s p = build_paged_url dig s 1 \<longleftrightarrow>
         paging s = str ''archdaily_search_page'' \<and> 63 \<in> set (list_url s) \<and>
         re_search_page dig (list_url s) \<and>
         re_sub_page dig (str_int p) (list_url s) = list_url s"
  proof (cases "paging s = str ''archdaily_search_page'' \<and> 63 \<in> set (list_url s) \<and>
         re_search_page dig (list_url s)")
    case True
    with p have "build_paged_url dig s p = re_sub_page dig (str_int p) (list_url s)"
      by (simp add: build_paged_url_def str_def)
    with True first show ?thesis by simp
  next
    case False
    with p path have "build_paged_url dig s p \<noteq> list_url s"
      by (auto simp: build_paged_url_def str_def)
    with False first show ?thesis by auto
  qed
qed

theorem build_paged_url_pages_witness:
  "build_paged_url ascii_digit ex_wp 1 = list_url ex_wp \<and>
   build_paged_url ascii_digit ex_wp 2 \<noteq> build_paged_url ascii_digit ex_wp 3 \<and>
   build_paged_url ascii_digit ex_wp 2 \<noteq> build_paged_url ascii_digit ex_wp 1 \<and>
   re_sub_page ascii_digit (str_int 3) (list_url ex_search) \<noteq> list_url ex_search \<and>
   build_paged_url ascii_digit ex_search 3 \<noteq> build_paged_url ascii_digit ex_search 1 \<and>
   paging ex_search = str ''archdaily_search_page'' \<and> 63 \<in> set (list_url ex_search) \<and>
   re_search_page ascii_digit (list_url ex_search) \<and>
   re_sub_page ascii_digit (str_int 2) (list_url ex_search) = list_url ex_search \<and>
   build_paged_url ascii_digit ex_search 2 = build_paged_url ascii_digit ex_search 1"
proof -
  have wp: "paging ex_wp \<noteq> str ''archdaily_search_page''" by (simp add: ex_wp_def str_def)
  have n: "(2::int) \<le> 2 \<and> (2::int) \<le> 3 \<and> (2::int) \<noteq> 3" "(2::int) \<le> 3" "(2::int) \<le> 2"
    by simp_all
  have s3: "re_sub_page ascii_digit (str_int 3) (list_url ex_search) \<noteq> list_url ex_search"
    by (simp add: ex_search_def str_def page_match_def ascii_digit_def str_int_def
        str_nat.simps)
  have s2: "paging ex_search = str ''archdaily_search_page''" "63 \<in> set (list_url ex_search)"
    "re_search_page ascii_digit (list_url ex_search)"
    "re_sub_page ascii_digit (str_int 2) (list_url ex_search) = list_url ex_search"
    by (simp_all add: ex_search_def str_def page_match_def ascii_digit_def str_int_def
        str_nat.simps)
  from build_paged_url_pages [of ascii_digit ex_wp 2 3] wp n
  have a: "build_paged_url ascii_digit ex_wp 1 = list_url ex_wp"
    "build_paged_url ascii_digit ex_wp 2 \<noteq> build_paged_url ascii_digit ex_wp 3"
    "build_paged_url ascii_digit ex_wp 2 \<noteq> build_paged_url ascii_digit ex_wp 1"
    by blast+
  from build_paged_url_pages [of ascii_digit ex_search 3 3] n s3
  have b: "build_paged_url ascii_digit ex_search 3 \<noteq> build_paged_url ascii_digit ex_search 1"
    by blast
  from build_paged_url_pages [of ascii_digit ex_search 2 2] n s2
  have c: "build_paged_url ascii_digit ex_search 2 = build_paged_url ascii_digit ex_search 1"
    by blast
  from a b c s2 s3 show ?thesis by blast
qed

text \<open>
  C3, counterexample.  For the search strategy and the listing URL
  \<open>https://www.archdaily.com/search/projects?page=2\<close>, page 1 is the listing URL and page 2
  rewrites \<open>page=2\<close> to \<open>page=2\<close>: the two distinct page numbers give the same URL.
\<close>

theorem build_paged_url_collision:
  "build_paged_url ascii_digit ex_search 1 = build_paged_url ascii_digit ex_search 2"
  by (simp add: build_paged_url_def ex_search_def str_def page_match_def ascii_digit_def
      str_int_def str_nat.simps)

section \<open>The backlog scan is bounded\<close>




section \<open>The selection policy\<close>




section \<open>The cap on the sent history\<close>

text \<open>
  C6.  Let \<open>s\<close> be the state of a source when its iteration of the publish loop
  starts, let \<open>pick_link_for_run\<close> select a non-empty link and let the \<open>try\<close> block
  (extraction and sending) end without an exception.  Then the state kept for the source
  has, as \<open>sent_urls\<close>, the old list with the link appended, cut to its last 5000 entries:
  the link is its last element, it has at most 5000 entries, and it is a suffix of the old
  list with the link appended (the entries dropped are the earliest, the order of the rest
  is kept).  Queue and cursor are as the selection left them.
\<close>

theorem publish_source_marks_sent:
  assumes "ensure_source_state st (sid src) (sid src) = Some s"
    and "pick_link_for_run env src mode s tr = (Inr (Some link), s1, tr1)"
    and "link \<noteq> []"
    and "try_publish env src link tr1 = (Inr (), tr2)"
  shows "\<exists>s'. publish_source env mode src st tr =
             (Inr ((ensure_source_state st (sid src))(sid src \<mapsto> s')), tr2) \<and>
           sent_urls s' = drop (length (sent_urls s @ [link]) - 5000) (sent_urls s @ [link]) \<and>
           last (sent_urls s') = link \<and>
           length (sent_urls s') \<le> 5000 \<and>
           suffix (sent_urls s') (sent_urls s @ [link]) \<and>
           queue_new s' = queue_new s1 \<and> archive_page s' = archive_page s1"
proof -
  from pick_link_for_run_frame [OF assms(2)] have sent: "sent_urls s1 = sent_urls s" by blast
  have pub: "publish_source env mode src st tr =
      (Inr ((ensure_source_state st (sid src))(sid src \<mapsto> mark_sent s1 link)), tr2)"
    using assms by (simp add: publish_source_def Let_def)
  have eq: "sent_urls (mark_sent s1 link) =
      drop (length (sent_urls s @ [link]) - 5000) (sent_urls s @ [link])"
    by (simp add: mark_sent_sent sent)
  have "last (drop (length (sent_urls s @ [link]) - 5000) (sent_urls s @ [link])) =
      last (sent_urls s @ [link])"
    by (rule last_drop) simp
  then have l: "last (sent_urls (mark_sent s1 link)) = link" by (simp add: eq)
  have n: "length (sent_urls (mark_sent s1 link)) \<le> 5000" by (simp add: eq)
  have sf: "suffix (sent_urls (mark_sent s1 link)) (sent_urls s @ [link])"
    unfolding eq by (rule suffix_drop)
  have fr: "queue_new (mark_sent s1 link) = queue_new s1"
    "archive_page (mark_sent s1 link) = archive_page s1"
    by (simp_all add: mark_sent_def Let_def)
  from pub eq l n sf fr show ?thesis by blast
qed

theorem publish_source_marks_sent_witness:
  "ensure_source_state state_full (sid ex_wp) (sid ex_wp) = Some full_a \<and>
   pick_link_for_run env_blank ex_wp (str ''morning'') full_a [] =
     (Inr (Some url_a), full_a\<lparr>queue_new := []\<rparr>, []) \<and>
   url_a \<noteq> [] \<and>
   fst (try_publish env_blank ex_wp url_a []) = Inr () \<and>
   (\<exists>s'. publish_source env_blank (str ''morning'') ex_wp state_full [] =
       (Inr (state_full(sid ex_wp \<mapsto> s')), snd (try_publish env_blank ex_wp url_a [])) \<and>
      sent_urls s' = replicate 4999 url_b @ [url_a] \<and>
      last (sent_urls s') = url_a \<and> length (sent_urls s') \<le> 5000 \<and> queue_new s' = [])"
proof -
  have a: "ensure_source_state state_full (sid ex_wp) (sid ex_wp) = Some full_a"
    by (simp add: ensure_source_state_def state_full_def)
  have b: "pick_link_for_run env_blank ex_wp (str ''morning'') full_a [] =
     (Inr (Some url_a), full_a\<lparr>queue_new := []\<rparr>, [])"
    by (simp add: pick_link_for_run_def full_a_def)
  have c: "url_a \<noteq> []" by (simp add: url_a_def str_def)
  have d: "fst (try_publish env_blank ex_wp url_a []) = Inr ()"
    by (simp add: try_publish_def parse_project_def fetch_def env_blank_def env_down_def
        meta_content_def send_message_def Let_def)
  then have d': "try_publish env_blank ex_wp url_a [] =
      (Inr (), snd (try_publish env_blank ex_wp url_a []))"
    by (metis prod.collapse)
  have e: "ensure_source_state state_full (sid ex_wp) = state_full"
    by (simp add: ensure_source_state_def state_full_def)
  have f: "drop (length (sent_urls full_a @ [url_a]) - 5000) (sent_urls full_a @ [url_a]) =
      replicate 4999 url_b @ [url_a]"
    by (simp add: full_a_def)
  from publish_source_marks_sent [OF a b c d'] obtain s' where
    "publish_source env_blank (str ''morning'') ex_wp state_full [] =
       (Inr (state_full(sid ex_wp \<mapsto> s')), snd (try_publish env_blank ex_wp url_a []))"
    "sent_urls s' = replicate 4999 url_b @ [url_a]"
    "last (sent_urls s') = url_a" "length (sent_urls s') \<le> 5000"
    "queue_new s' = queue_new (full_a\<lparr>queue_new := []\<rparr>)"
    unfolding e f by blast
  then have "\<exists>s'. publish_source env_blank (str ''morning'') ex_wp state_full [] =
       (Inr (state_full(sid ex_wp \<mapsto> s')), snd (try_publish env_blank ex_wp url_a [])) \<and>
      sent_urls s' = replicate 4999 url_b @ [url_a] \<and>
      last (sent_urls s') = url_a \<and> length (sent_urls s') \<le> 5000 \<and> queue_new s' = []"
    by auto
  with a b c d show ?thesis by blast
qed

section \<open>Truncation of the description\<close>

text \<open>
  C7 (as amended).  For a description that is present and not empty, let \<open>d2\<close> be its
  whitespace-normalised form.  Up to 320 characters \<open>d2\<close> is stored untruncated.  Beyond 320
  characters the stored description is the first 317 characters of \<open>d2\<close> with trailing
  whitespace removed, followed by one ellipsis: the first 317 characters and the ellipsis
  (318 characters) when the 317th character is not a space, and the first 316 characters and
  the ellipsis (317 characters) when it is.
\<close>

theorem trim_desc_cases:
  assumes "d \<noteq> []"
  defines "d2 \<equiv> re_sub_spaces (strip d)"
  shows "(length d2 \<le> 320 \<longrightarrow> trim_desc (Some d) = Some d2) \<and>
         (320 < length d2 \<longrightarrow> trim_desc (Some d) = Some (rstrip (take 317 d2) @ [8230])) \<and>
         (320 < length d2 \<and> \<not> isspace (d2 ! 316) \<longrightarrow>
            trim_desc (Some d) = Some (take 317 d2 @ [8230])) \<and>
         (320 < length d2 \<and> isspace (d2 ! 316) \<longrightarrow>
            trim_desc (Some d) = Some (take 316 d2 @ [8230]))"
proof (intro conjI impI)
  show "trim_desc (Some d) = Some d2" if "length d2 \<le> 320"
    using that assms(1) by (simp add: trim_desc_def d2_def)
  show long: "trim_desc (Some d) = Some (rstrip (take 317 d2) @ [8230])" if "320 < length d2"
    using that assms(1) by (simp add: trim_desc_def d2_def)
  show "trim_desc (Some d) = Some (take 317 d2 @ [8230])"
    if h: "320 < length d2 \<and> \<not> isspace (d2 ! 316)"
  proof -
    from h have "take 317 d2 = take 316 d2 @ [d2 ! 316]"
      using take_Suc_conv_app_nth [of 316 d2] by simp
    with h have "rstrip (take 317 d2) = take 317 d2" by (simp add: rstrip_id)
    with long h show ?thesis by simp
  qed
  show "trim_desc (Some d) = Some (take 316 d2 @ [8230])"
    if h: "320 < length d2 \<and> isspace (d2 ! 316)"
  proof -
    from h have t317: "take 317 d2 = take 316 d2 @ [d2 ! 316]"
      using take_Suc_conv_app_nth [of 316 d2] by simp
    from h have t316: "take 316 d2 = take 315 d2 @ [d2 ! 315]"
      using take_Suc_conv_app_nth [of 315 d2] by simp
    have "\<not> isspace (d2 ! 315)"
    proof
      assume "isspace (d2 ! 315)"
      with h re_sub_spaces_single [of 315 "strip d"] show False by (simp add: d2_def)
    qed
    with t316 have "rstrip (take 316 d2) = take 316 d2" by (simp add: rstrip_id)
    with t317 h have "rstrip (take 317 d2) = take 316 d2" by (simp add: rstrip_snoc_space)
    with long h show ?thesis by simp
  qed
qed

theorem trim_desc_cases_witness:
  "long_desc \<noteq> [] \<and> 320 < length (re_sub_spaces (strip long_desc)) \<and>
   isspace (re_sub_spaces (strip long_desc) ! 316) \<and>
   trim_desc (Some long_desc) = Some (take 316 (re_sub_spaces (strip long_desc)) @ [8230]) \<and>
   str ''  A  small   house '' \<noteq> [] \<and>
   length (re_sub_spaces (strip (str ''  A  small   house ''))) \<le> 320 \<and>
   trim_desc (Some (str ''  A  small   house '')) = Some (str ''A small house'')"
proof -
  have ne: "long_desc \<noteq> []" by (simp add: long_desc_def)
  have "320 < length long_desc" by (simp add: long_desc_def)
  then have len: "320 < length (re_sub_spaces (strip long_desc))"
    by (simp only: long_desc_norm)
  have "isspace (long_desc ! 316)" by (simp add: long_desc_def nth_append isspace_def)
  then have sp: "isspace (re_sub_spaces (strip long_desc) ! 316)"
    by (simp only: long_desc_norm)
  have ne': "str ''  A  small   house '' \<noteq> []" by (simp add: str_def)
  have norm: "re_sub_spaces (strip (str ''  A  small   house '')) = str ''A small house''"
    by (simp add: str_def strip_def lstrip_def rstrip_def isspace_def)
  then have len': "length (re_sub_spaces (strip (str ''  A  small   house ''))) \<le> 320"
    by (simp add: str_def)
  from trim_desc_cases [OF ne] len sp
  have "trim_desc (Some long_desc) = Some (take 316 (re_sub_spaces (strip long_desc)) @ [8230])"
    by blast
  moreover from trim_desc_cases [OF ne'] len'
  have "trim_desc (Some (str ''  A  small   house '')) =
      Some (re_sub_spaces (strip (str ''  A  small   house '')))"
    by blast
  ultimately show ?thesis using ne len sp ne' len' norm by simp
qed

text \<open>
  C7, counterexample.  The description \<open>long_desc\<close> (316 letters, a space, 10 letters) is
  its own normalised form and has 327 characters; its first 317 characters end in the space,
  which \<open>rstrip\<close> removes, so what is stored is 316 letters and the ellipsis, not the first
  317 characters and the ellipsis.
\<close>

theorem trim_desc_not_317:
  "320 < length (re_sub_spaces (strip long_desc)) \<and>
   trim_desc (Some long_desc) = Some (replicate 316 97 @ [8230]) \<and>
   trim_desc (Some long_desc) \<noteq> Some (take 317 (re_sub_spaces (strip long_desc)) @ [8230])"
proof -
  have "320 < length long_desc" by (simp add: long_desc_def)
  moreover have "take 317 long_desc \<noteq> replicate 316 97"
  proof
    assume "take 317 long_desc = replicate 316 97"
    then have "length (take 317 long_desc) = length (replicate 316 (97::nat))" by (simp only:)
    then show False by (simp add: long_desc_def)
  qed
  ultimately show ?thesis by (simp add: trim_long long_desc_norm)
qed

section \<open>Credit extraction\<close>

text \<open>
  C8 (as amended).  Over the ordered pattern list, the result is the value of the first
  pattern that matches \<^emph>\<open>and\<close> whose captured value, cut at the first line break or
  separator and trimmed, has between 2 and 120 characters; a matching pattern whose value
  is shorter or longer is skipped and the later patterns are still tried.  The result is
  absent exactly when no pattern gives such a value.  A value that is returned has
  between 2 and 120 characters and contains no line break or separator.
\<close>

theorem find_credit_first_valid:
  "find_credit rs text pats =
     (case filter valid_credit (map credit_value (List.map_filter (\<lambda>p. rs p text) pats)) of
        [] \<Rightarrow> None | v # _ \<Rightarrow> Some v) \<and>
   (find_credit rs text pats = Some v \<longrightarrow> valid_credit v \<and> (\<forall>c \<in> set v. \<not> is_separator c))"
proof
  show first: "find_credit rs text pats =
     (case filter valid_credit (map credit_value (List.map_filter (\<lambda>p. rs p text) pats)) of
        [] \<Rightarrow> None | v # _ \<Rightarrow> Some v)"
    by (rule find_credit_char)
  show "find_credit rs text pats = Some v \<longrightarrow> valid_credit v \<and> (\<forall>c \<in> set v. \<not> is_separator c)"
  proof
    assume "find_credit rs text pats = Some v"
    with first obtain rest where
      "filter valid_credit (map credit_value (List.map_filter (\<lambda>p. rs p text) pats)) = v # rest"
      by (auto split: list.splits)
    then have
      "v \<in> set (filter valid_credit (map credit_value (List.map_filter (\<lambda>p. rs p text) pats)))"
      by (metis list.set_intros(1))
    then show "valid_credit v \<and> (\<forall>c \<in> set v. \<not> is_separator c)"
      using credit_value_no_separator by auto
  qed
qed

theorem find_credit_first_valid_witness:
  "find_credit ex_re_search ex_text [0, 1, 2] = Some (str ''Foo Bar'') \<and>
   valid_credit (str ''Foo Bar'') \<and> list_all (\<lambda>c. \<not> is_separator c) (str ''Foo Bar'')"
proof -
  have r: "find_credit ex_re_search ex_text [0, 1, 2] = Some (str ''Foo Bar'')"
    by (simp add: ex_re_search_def credit_value_def strip_def lstrip_def rstrip_def
        isspace_def is_separator_def str_def)
  with find_credit_first_valid [of ex_re_search ex_text "[0, 1, 2]" "str ''Foo Bar''"]
  have "valid_credit (str ''Foo Bar'')" and "\<forall>c \<in> set (str ''Foo Bar''). \<not> is_separator c"
    by blast+
  then have "valid_credit (str ''Foo Bar'')"
    and "list_all (\<lambda>c. \<not> is_separator c) (str ''Foo Bar'')"
    by (simp_all only: list_all_iff)
  with r show ?thesis by blast
qed

text \<open>
  C8, counterexample.  On the page text \<open>ex_text\<close> the first pattern matches and captures
  \<open>A\<close>, one character long.  The result is not absent: the second pattern does not match,
  the third matches, and its value \<open>Foo Bar\<close> is returned.
\<close>

theorem find_credit_not_first_match:
  "ex_re_search 0 ex_text = Some (str ''A'') \<and> \<not> valid_credit (credit_value (str ''A'')) \<and>
   find_credit ex_re_search ex_text [0, 1, 2] = Some (str ''Foo Bar'')"
  by (simp add: ex_re_search_def credit_value_def strip_def lstrip_def rstrip_def
      isspace_def is_separator_def str_def valid_credit_def)

section \<open>URL normalization is not quite idempotent\<close>

text \<open>
  C9 (as amended).  Normalising an already normalised URL only removes trailing whitespace
  that the first pass exposed by cutting at \<open>#\<close> or \<open>?\<close>; in particular
  normalisation is idempotent on every URL that contains no whitespace character.
\<close>

theorem normalize_url_twice:
  "normalize_url (normalize_url u) = rstrip (normalize_url u) \<and>
   ((\<forall>c \<in> set u. \<not> isspace c) \<longrightarrow> normalize_url (normalize_url u) = normalize_url u)"
proof -
  have "rstrip (normalize_url u) = normalize_url u" if "\<forall>c \<in> set u. \<not> isspace c"
  proof (rule rstrip_id, cases "normalize_url u = []")
    case False
    then have "last (normalize_url u) \<in> set u"
      using normalize_url_set [of u] last_in_set by blast
    with that show "normalize_url u = [] \<or> \<not> isspace (last (normalize_url u))" by blast
  qed simp
  then show ?thesis by (simp add: normalize_url_again)
qed

text \<open>
  C9, counterexample.  The input \<open>"a #b"\<close> normalises to \<open>"a "\<close> (the fragment is cut
  after the surrounding whitespace was stripped), and that normalises to \<open>"a"\<close>.
\<close>

theorem normalize_url_not_idempotent:
  "normalize_url (normalize_url (str ''a #b'')) \<noteq> normalize_url (str ''a #b'')"
  by (simp add: normalize_url_def split_first_def strip_def lstrip_def rstrip_def
      str_def isspace_def contains_def)

theorem normalize_url_twice_witness:
  "list_all (\<lambda>c. \<not> isspace c) (str ''http://x.org/p?utm=1#top'') \<and>
   normalize_url (normalize_url (str ''http://x.org/p?utm=1#top'')) =
   normalize_url (str ''http://x.org/p?utm=1#top'')"
proof -
  have h: "list_all (\<lambda>c. \<not> isspace c) (str ''http://x.org/p?utm=1#top'')"
    by (simp add: str_def isspace_def)
  then have "\<forall>c \<in> set (str ''http://x.org/p?utm=1#top''). \<not> isspace c"
    by (simp only: list_all_iff)
  with normalize_url_twice [of "str ''http://x.org/p?utm=1#top''"]
  have "normalize_url (normalize_url (str ''http://x.org/p?utm=1#top'')) =
    normalize_url (str ''http://x.org/p?utm=1#top'')" by blast
  with h show ?thesis by (rule conjI)
qed

section \<open>Dispatch on the mode string\<close>




end
